theory Spec2Isabelle
  imports
    Complex_Main
    "HOL-Library.AList"
    "HOL-Library.Char_ord"
    "HOL-Library.List_Lexorder"
    "HOL-Library.Product_Lexorder"
    "HOL-Library.Sublist"
begin

section \<open>Conventions of the embedding\<close>

text \<open>
  The program is \<^verbatim>\<open>converter.py\<close>: it parses an AutoEq parametric-EQ text preset and
  emits a FabFilter Pro-Q 4 preset (\<^verbatim>\<open>.ffp\<close>) as key-value text.

  \<^item> A Python \<^verbatim>\<open>float\<close> is modelled by the real number it stands for: arithmetic is
    exact. Binary rounding, overflow to \<^verbatim>\<open>inf\<close>, \<^verbatim>\<open>nan\<close> and the sign of zero are
    outside the model.
  \<^item> A Python \<^verbatim>\<open>str\<close> is a \<^typ>\<open>string\<close>; a \<^typ>\<open>char\<close> is a code point below 256.
    The character classes below are Python's on that range.
  \<^item> An exception is a value of \<^typ>\<open>'a + 'b\<close>: \<open>Inl\<close> the error, \<open>Inr\<close> the result.
  \<^item> A \<^verbatim>\<open>dict\<close> is an association list in insertion order.
\<close>

datatype error = ValueError | ZeroDivisionError | KeyError | IndexError | AttributeError

section \<open>Data model\<close>

record Filter =
  enabled :: bool
  filter_type :: string
  frequency :: real
  gain :: real
  q :: real

record EQPreset =
  preamp :: real
  filters :: "Filter list"
  name :: string
  author :: string
  tags :: string

section \<open>Python library functions used by the program\<close>

subsection \<open>Character classes\<close>

text \<open>\<^verbatim>\<open>str.isspace\<close> and the class \<^verbatim>\<open>\s\<close> of \<^verbatim>\<open>re\<close>, on code points below 256.\<close>

definition is_space :: "char \<Rightarrow> bool" where
  "is_space c = (let n = (of_char c :: nat) in
     (9 \<le> n \<and> n \<le> 13) \<or> (28 \<le> n \<and> n \<le> 32) \<or> n = 133 \<or> n = 160)"

text \<open>The class \<^verbatim>\<open>\d\<close>: the decimal digits; below 256 these are \<^verbatim>\<open>0\<close> to \<^verbatim>\<open>9\<close>.\<close>

definition is_digit :: "char \<Rightarrow> bool" where
  "is_digit c = (let n = (of_char c :: nat) in 48 \<le> n \<and> n \<le> 57)"

text \<open>The class \<^verbatim>\<open>\w\<close>: alphanumeric code points and the underscore.\<close>

definition is_word :: "char \<Rightarrow> bool" where
  "is_word c = (let n = (of_char c :: nat) in
     (48 \<le> n \<and> n \<le> 57) \<or> (65 \<le> n \<and> n \<le> 90) \<or> n = 95 \<or> (97 \<le> n \<and> n \<le> 122) \<or>
     n = 170 \<or> n = 178 \<or> n = 179 \<or> n = 181 \<or> n = 185 \<or> n = 186 \<or>
     (188 \<le> n \<and> n \<le> 190) \<or> (192 \<le> n \<and> n \<le> 214) \<or> (216 \<le> n \<and> n \<le> 246) \<or>
     (248 \<le> n \<and> n \<le> 255))"

subsection \<open>Strings\<close>

text \<open>\<^verbatim>\<open>s.strip()\<close>\<close>

definition py_strip :: "string \<Rightarrow> string" where
  "py_strip s = rev (dropWhile is_space (rev (dropWhile is_space s)))"

text \<open>\<^verbatim>\<open>s.split('\n')\<close>: the empty string gives one empty line.\<close>

fun split_nl :: "string \<Rightarrow> string list" where
  "split_nl [] = [[]]"
| "split_nl (c # cs) =
     (if c = CHR 0x0A then [] # split_nl cs
      else (case split_nl cs of l # ls \<Rightarrow> (c # l) # ls | [] \<Rightarrow> [[c]]))"

text \<open>\<^verbatim>\<open>'\n'.join(lines)\<close>\<close>

fun join_nl :: "string list \<Rightarrow> string" where
  "join_nl [] = []"
| "join_nl [l] = l"
| "join_nl (l # ls) = l @ CHR 0x0A # join_nl ls"

subsection \<open>Integers and their decimal text\<close>

definition digit_char :: "nat \<Rightarrow> char" where
  "digit_char d = char_of (48 + d)"

definition digit_val :: "char \<Rightarrow> nat" where
  "digit_val c = of_char c - 48"

fun show_nat :: "nat \<Rightarrow> string" where
  "show_nat n = (if n < 10 then [digit_char n] else show_nat (n div 10) @ [digit_char (n mod 10)])"

declare show_nat.simps [simp del]

text \<open>\<^verbatim>\<open>str(i)\<close> for an \<^verbatim>\<open>int\<close>.\<close>

definition str_int :: "int \<Rightarrow> string" where
  "str_int i = (if i < 0 then CHR ''-'' # show_nat (nat (- i)) else show_nat (nat i))"

definition nat_of_digits :: "string \<Rightarrow> nat" where
  "nat_of_digits ds = foldl (\<lambda>a c. 10 * a + digit_val c) 0 ds"

text \<open>
  \<^verbatim>\<open>int(s)\<close> on a string of decimal digits. Signs, blanks and digit separators, which
  Python also reads, are an error here; the program passes only what \<^verbatim>\<open>\d+\<close> matched.
\<close>

definition py_int :: "string \<Rightarrow> error + int" where
  "py_int s = (if s \<noteq> [] \<and> list_all is_digit s then Inr (int (nat_of_digits s)) else Inl ValueError)"

subsection \<open>Floats and their text\<close>

text \<open>
  \<^verbatim>\<open>float(s)\<close> on a plain decimal literal: blanks around it, an optional sign, digits
  with an optional point (\<^verbatim>\<open>12\<close>, \<^verbatim>\<open>12.\<close>, \<^verbatim>\<open>12.5\<close>, \<^verbatim>\<open>.5\<close>). The value is the exact
  decimal. Exponents, \<^verbatim>\<open>inf\<close>, \<^verbatim>\<open>nan\<close> and digit separators, which Python also reads,
  are an error here; the patterns of the program capture none of them.
\<close>

definition unsigned_decimal :: "string \<Rightarrow> error + real" where
  "unsigned_decimal s =
     (let ip = takeWhile is_digit s; r = dropWhile is_digit s in
      case r of
        [] \<Rightarrow> if ip = [] then Inl ValueError else Inr (real (nat_of_digits ip))
      | c # fp \<Rightarrow>
          if c = CHR ''.'' \<and> list_all is_digit fp \<and> (ip \<noteq> [] \<or> fp \<noteq> [])
          then Inr (real (nat_of_digits ip) + real (nat_of_digits fp) / 10 ^ length fp)
          else Inl ValueError)"

definition py_float :: "string \<Rightarrow> error + real" where
  "py_float s =
     (case py_strip s of
        [] \<Rightarrow> Inl ValueError
      | c # u \<Rightarrow>
          if c = CHR ''-'' then (case unsigned_decimal u of Inl e \<Rightarrow> Inl e | Inr v \<Rightarrow> Inr (- v))
          else if c = CHR ''+'' then unsigned_decimal u
          else unsigned_decimal (c # u))"

text \<open>
  \<^verbatim>\<open>str(x)\<close> for a \<^verbatim>\<open>float\<close>. A whole number below \<open>10^16\<close> in magnitude prints as its
  digits followed by \<^verbatim>\<open>.0\<close>. Any other value prints as the shortest decimal that reads
  back as the same binary double, which exact arithmetic does not determine: it is the
  parameter \<open>repr\<close>.
\<close>

definition float_str :: "(real \<Rightarrow> string) \<Rightarrow> real \<Rightarrow> string" where
  "float_str repr x =
     (if of_int \<lfloor>x\<rfloor> = x \<and> \<bar>x\<bar> < 10 ^ 16 then str_int \<lfloor>x\<rfloor> @ ''.0'' else repr x)"

subsection \<open>The math module\<close>

text \<open>\<^verbatim>\<open>math.log2\<close> and \<^verbatim>\<open>math.log\<close> raise \<^verbatim>\<open>ValueError\<close> (math domain error) outside
  the positive numbers. On a positive number the value here is the exact logarithm; the
  program gets the binary double that the C library rounds it to. For \<^verbatim>\<open>math.log2\<close> the
  difference shows: in the program \<^verbatim>\<open>math.log2(1024.0)\<close> and
  \<^verbatim>\<open>math.log2(1024.0000000000002)\<close> are both \<^verbatim>\<open>10.0\<close>, while the exact logarithms differ.
  The results below use of \<^verbatim>\<open>math.log2\<close> only where it raises and that its value, whatever
  it is, is the one written to the output.\<close>

definition math_log2 :: "real \<Rightarrow> error + real" where
  "math_log2 x = (if x \<le> 0 then Inl ValueError else Inr (log 2 x))"

definition math_log :: "real \<Rightarrow> error + real" where
  "math_log x = (if x \<le> 0 then Inl ValueError else Inr (ln x))"

text \<open>\<^verbatim>\<open>a / b\<close> on floats.\<close>

definition py_div :: "real \<Rightarrow> real \<Rightarrow> error + real" where
  "py_div a b = (if b = 0 then Inl ZeroDivisionError else Inr (a / b))"

section \<open>Unit transforms\<close>

definition frequency_to_proq4 :: "real \<Rightarrow> error + real" where
  "frequency_to_proq4 freq_hz = math_log2 freq_hz"

definition Q_MIN :: real where
  "Q_MIN = 0.025"

definition Q_MAX :: real where
  "Q_MAX = 40.0"

definition q_to_proq4 :: "real \<Rightarrow> string \<Rightarrow> error + real" where
  "q_to_proq4 qv ftype =
     (let qc = max Q_MIN (min Q_MAX qv) in
      case math_log qc of Inl e \<Rightarrow> Inl e | Inr a \<Rightarrow>
      case math_log Q_MIN of Inl e \<Rightarrow> Inl e | Inr b \<Rightarrow>
      case math_log Q_MAX of Inl e \<Rightarrow> Inl e | Inr c \<Rightarrow>
      case math_log Q_MIN of Inl e \<Rightarrow> Inl e | Inr d \<Rightarrow>
      py_div (a - b) (c - d))"

definition shape_mapping :: "(string \<times> int) list" where
  "shape_mapping = [(''PK'', 0), (''LSC'', 1), (''LP'', 2), (''HSC'', 3), (''HP'', 4)]"

definition filter_type_to_shape :: "string \<Rightarrow> int" where
  "filter_type_to_shape ftype = (case map_of shape_mapping ftype of Some v \<Rightarrow> v | None \<Rightarrow> 0)"

definition preamp_to_output_level :: "real \<Rightarrow> real" where
  "preamp_to_output_level p = p / 36.0"

section \<open>Regular expressions\<close>

text \<open>
  The fragment of Python's \<^verbatim>\<open>re\<close> that the program's three patterns use: literals, an
  optional character (\<^verbatim>\<open>-?\<close>, \<^verbatim>\<open>\.?\<close>), greedy repetition of a character class
  (\<^verbatim>\<open>\s+\<close>, \<^verbatim>\<open>\d*\<close>, ...), alternation, concatenation and capture groups. No group of
  these patterns stands under an alternation or inside another group.
\<close>

datatype cls = Space | Digit | Word

fun in_cls :: "cls \<Rightarrow> char \<Rightarrow> bool" where
  "in_cls Space c = is_space c"
| "in_cls Digit c = is_digit c"
| "in_cls Word c = is_word c"

datatype re =
  Lit string
| OptChar char
| OneOrMore cls
| ZeroOrMore cls
| Either re re
| Then re re
| Group re

text \<open>
  \<open>rmatch r s\<close> lists every way \<open>r\<close> matches a prefix of \<open>s\<close>, in the order a
  backtracking matcher tries them (greedy: longest repetition first): the captured
  groups, left to right, and the rest of \<open>s\<close>.
\<close>

fun rmatch :: "re \<Rightarrow> string \<Rightarrow> (string list \<times> string) list" where
  "rmatch (Lit l) s = (if prefix l s then [([], drop (length l) s)] else [])"
| "rmatch (OptChar c) s =
     (case s of [] \<Rightarrow> [([], s)] | x # t \<Rightarrow> if x = c then [([], t), ([], s)] else [([], s)])"
| "rmatch (OneOrMore k) s =
     map (\<lambda>n. ([], drop n s)) (rev [1..<Suc (length (takeWhile (in_cls k) s))])"
| "rmatch (ZeroOrMore k) s =
     map (\<lambda>n. ([], drop n s)) (rev [0..<Suc (length (takeWhile (in_cls k) s))])"
| "rmatch (Either a b) s = rmatch a s @ rmatch b s"
| "rmatch (Then a b) s =
     concat (map (\<lambda>(g1, s1). map (\<lambda>(g2, s2). (g1 @ g2, s2)) (rmatch b s1)) (rmatch a s))"
| "rmatch (Group a) s = map (\<lambda>(g, s1). (take (length s - length s1) s # g, s1)) (rmatch a s)"

text \<open>\<^verbatim>\<open>re.search(r, s)\<close>: the first match at the leftmost position that has one; its
  groups, or \<open>None\<close>.\<close>

fun re_search :: "re \<Rightarrow> string \<Rightarrow> string list option" where
  "re_search r [] = (case rmatch r [] of [] \<Rightarrow> None | (g, _) # _ \<Rightarrow> Some g)"
| "re_search r (c # t) = (case rmatch r (c # t) of [] \<Rightarrow> re_search r t | (g, _) # _ \<Rightarrow> Some g)"

text \<open>\<^verbatim>\<open>match.group(k)\<close>\<close>

definition group :: "string list \<Rightarrow> nat \<Rightarrow> error + string" where
  "group g k = (if 1 \<le> k \<and> k \<le> length g then Inr (g ! (k - 1)) else Inl IndexError)"

fun cat :: "re list \<Rightarrow> re" where
  "cat [] = Lit []"
| "cat [r] = r"
| "cat (r # rs) = Then r (cat rs)"

text \<open>\<^verbatim>\<open>\d+\.?\d*\<close> and \<^verbatim>\<open>-?\d+\.?\d*\<close>\<close>

definition number_re :: re where
  "number_re = cat [OneOrMore Digit, OptChar CHR ''.'', ZeroOrMore Digit]"

definition signed_number_re :: re where
  "signed_number_re = cat [OptChar CHR ''-'', number_re]"

text \<open>\<^verbatim>\<open>Preamp:\s*(-?\d+\.?\d*)\s*dB\<close>\<close>

definition preamp_re :: re where
  "preamp_re = cat [Lit ''Preamp:'', ZeroOrMore Space, Group signed_number_re,
     ZeroOrMore Space, Lit ''dB'']"

text \<open>\<^verbatim>\<open>Filter\s+\d+:\s+(ON|OFF)\s+(\w+)\s+Fc\s+(\d+\.?\d*)\s*Hz\s+Gain\s+(-?\d+\.?\d*)\s*dB\s+Q\s+(\d+\.?\d*)\<close>\<close>

definition filter_re :: re where
  "filter_re = cat [Lit ''Filter'', OneOrMore Space, OneOrMore Digit, Lit '':'', OneOrMore Space,
     Group (Either (Lit ''ON'') (Lit ''OFF'')), OneOrMore Space,
     Group (OneOrMore Word), OneOrMore Space,
     Lit ''Fc'', OneOrMore Space, Group number_re, ZeroOrMore Space, Lit ''Hz'', OneOrMore Space,
     Lit ''Gain'', OneOrMore Space, Group signed_number_re, ZeroOrMore Space, Lit ''dB'',
     OneOrMore Space, Lit ''Q'', OneOrMore Space, Group number_re]"

text \<open>\<^verbatim>\<open>Band (\d+)\<close>\<close>

definition band_re :: re where
  "band_re = cat [Lit ''Band '', Group (OneOrMore Digit)]"

section \<open>Containers\<close>

type_synonym dict = "(string \<times> string) list"

text \<open>\<^verbatim>\<open>d[k] = v\<close>: an existing key keeps its place, a new one goes last.\<close>

definition dict_set :: "string \<Rightarrow> string \<Rightarrow> dict \<Rightarrow> dict" where
  "dict_set k v d = AList.update k v d"

text \<open>\<^verbatim>\<open>d[k]\<close>\<close>

definition dict_get :: "dict \<Rightarrow> string \<Rightarrow> error + string" where
  "dict_get d k = (case map_of d k of None \<Rightarrow> Inl KeyError | Some v \<Rightarrow> Inr v)"

text \<open>\<^verbatim>\<open>xs[i]\<close>: a negative index counts from the end.\<close>

definition py_index :: "'a list \<Rightarrow> int \<Rightarrow> error + 'a" where
  "py_index xs i =
     (if 0 \<le> i \<and> i < int (length xs) then Inr (xs ! nat i)
      else if i < 0 \<and> - int (length xs) \<le> i then Inr (xs ! nat (int (length xs) + i))
      else Inl IndexError)"

text \<open>\<^verbatim>\<open>range(a, b)\<close>\<close>

definition py_range :: "int \<Rightarrow> int \<Rightarrow> int list" where
  "py_range a b = [a..b - 1]"

text \<open>Applying a function that may raise to each element in turn: the first error wins.\<close>

fun map_err :: "('a \<Rightarrow> error + 'b) \<Rightarrow> 'a list \<Rightarrow> error + 'b list" where
  "map_err f [] = Inr []"
| "map_err f (x # xs) =
     (case f x of Inl e \<Rightarrow> Inl e
      | Inr y \<Rightarrow> (case map_err f xs of Inl e \<Rightarrow> Inl e | Inr ys \<Rightarrow> Inr (y # ys)))"

section \<open>Parser\<close>

text \<open>The body of the \<^verbatim>\<open>for line in lines\<close> loop of \<^verbatim>\<open>parse_text_preset\<close>, on the
  running \<^verbatim>\<open>preamp\<close> and \<^verbatim>\<open>filters\<close>.\<close>

definition parse_line :: "string \<Rightarrow> real \<times> Filter list \<Rightarrow> error + (real \<times> Filter list)" where
  "parse_line raw st =
     (let line = py_strip raw in
      if prefix ''Preamp:'' line then
        (case re_search preamp_re line of
           None \<Rightarrow> Inr st
         | Some m \<Rightarrow>
             (case group m 1 of Inl e \<Rightarrow> Inl e | Inr g1 \<Rightarrow>
              case py_float g1 of Inl e \<Rightarrow> Inl e | Inr v \<Rightarrow> Inr (v, snd st)))
      else if prefix ''Filter'' line then
        (case re_search filter_re line of
           None \<Rightarrow> Inr st
         | Some m \<Rightarrow>
             (case group m 1 of Inl e \<Rightarrow> Inl e | Inr g1 \<Rightarrow>
              case group m 2 of Inl e \<Rightarrow> Inl e | Inr g2 \<Rightarrow>
              case group m 3 of Inl e \<Rightarrow> Inl e | Inr g3 \<Rightarrow>
              case py_float g3 of Inl e \<Rightarrow> Inl e | Inr fr \<Rightarrow>
              case group m 4 of Inl e \<Rightarrow> Inl e | Inr g4 \<Rightarrow>
              case py_float g4 of Inl e \<Rightarrow> Inl e | Inr ga \<Rightarrow>
              case group m 5 of Inl e \<Rightarrow> Inl e | Inr g5 \<Rightarrow>
              case py_float g5 of Inl e \<Rightarrow> Inl e | Inr qv \<Rightarrow>
              Inr (fst st, snd st @
                [\<lparr>enabled = (g1 = ''ON''), filter_type = g2, frequency = fr, gain = ga, q = qv\<rparr>])))
      else Inr st)"

fun parse_loop :: "string list \<Rightarrow> real \<times> Filter list \<Rightarrow> error + (real \<times> Filter list)" where
  "parse_loop [] st = Inr st"
| "parse_loop (l # ls) st = (case parse_line l st of Inl e \<Rightarrow> Inl e | Inr st' \<Rightarrow> parse_loop ls st')"

definition parse_text_preset :: "string \<Rightarrow> error + EQPreset" where
  "parse_text_preset text =
     (case parse_loop (split_nl (py_strip text)) (0.0, []) of
        Inl e \<Rightarrow> Inl e
      | Inr st \<Rightarrow> Inr \<lparr>preamp = fst st, filters = snd st, name = [], author = [], tags = []\<rparr>)"

section \<open>Default band parameters\<close>

text \<open>The key \<^verbatim>\<open>f'Band {band_num} <Field>'\<close>.\<close>

definition band_key :: "int \<Rightarrow> string \<Rightarrow> string" where
  "band_key band_num field = ''Band '' @ str_int band_num @ '' '' @ field"

definition generate_default_band_params :: "int \<Rightarrow> bool \<Rightarrow> dict" where
  "generate_default_band_params band_num used = [
      (band_key band_num ''Used'', (if used then ''1'' else ''0'')),
      (band_key band_num ''Enabled'', ''1''),
      (band_key band_num ''Frequency'', ''9.96578407287598''),
      (band_key band_num ''Gain'', ''0''),
      (band_key band_num ''Q'', ''0.5''),
      (band_key band_num ''Shape'', ''0''),
      (band_key band_num ''Slope'', ''2''),
      (band_key band_num ''Stereo Placement'', ''2''),
      (band_key band_num ''Speakers'', ''1''),
      (band_key band_num ''Dynamic Range'', ''0''),
      (band_key band_num ''Dynamics Enabled'', ''1''),
      (band_key band_num ''Dynamics Auto'', ''1''),
      (band_key band_num ''Threshold'', (if \<not> used then ''0.666666686534882'' else ''1'')),
      (band_key band_num ''Attack'', ''50''),
      (band_key band_num ''Release'', ''50''),
      (band_key band_num ''External Side Chain'', ''0''),
      (band_key band_num ''Side Chain Filtering'', ''0''),
      (band_key band_num ''Side Chain Low Frequency'', (if \<not> used then ''3.32192802429199'' else ''6.64385604858398'')),
      (band_key band_num ''Side Chain High Frequency'', (if \<not> used then ''14.287712097168'' else ''11.5507469177246'')),
      (band_key band_num ''Side Chain Audition'', ''0''),
      (band_key band_num ''Spectral Enabled'', ''0''),
      (band_key band_num ''Spectral Density'', ''50''),
      (band_key band_num ''Solo'', ''0'')]"

section \<open>Emitter\<close>

text \<open>The parameters of band \<open>i\<close>: the first branch of the loop body overrides six fields
  of the used defaults with the filter's values, the second takes the unused defaults.\<close>

definition band_params :: "(real \<Rightarrow> string) \<Rightarrow> EQPreset \<Rightarrow> int \<Rightarrow> error + dict" where
  "band_params repr preset i =
     (if i \<le> int (length (filters preset)) then
        (case py_index (filters preset) (i - 1) of Inl e \<Rightarrow> Inl e | Inr filt \<Rightarrow>
         let params = generate_default_band_params i True;
             params = dict_set (band_key i ''Used'') ''1'' params;
             params = dict_set (band_key i ''Enabled'') (if enabled filt then ''1'' else ''0'') params
         in
         case frequency_to_proq4 (frequency filt) of Inl e \<Rightarrow> Inl e | Inr fr \<Rightarrow>
         let params = dict_set (band_key i ''Frequency'') (float_str repr fr) params;
             params = dict_set (band_key i ''Gain'') (float_str repr (gain filt)) params
         in
         case q_to_proq4 (q filt) (filter_type filt) of Inl e \<Rightarrow> Inl e | Inr qn \<Rightarrow>
         let params = dict_set (band_key i ''Q'') (float_str repr qn) params;
             params = dict_set (band_key i ''Shape'')
                        (str_int (filter_type_to_shape (filter_type filt))) params
         in Inr params)
      else Inr (generate_default_band_params i False))"

text \<open>The sort key \<^verbatim>\<open>(int(re.search(r'Band (\d+)', x).group(1)), x)\<close>.\<close>

definition param_sort_key :: "string \<Rightarrow> error + (int \<times> string)" where
  "param_sort_key x =
     (case re_search band_re x of
        None \<Rightarrow> Inl AttributeError
      | Some m \<Rightarrow>
          (case group m 1 of Inl e \<Rightarrow> Inl e | Inr g1 \<Rightarrow>
           case py_int g1 of Inl e \<Rightarrow> Inl e | Inr n \<Rightarrow> Inr (n, x)))"

text \<open>\<^verbatim>\<open>sorted(params.keys(), key=...)\<close>: a stable sort on the computed keys.\<close>

definition sorted_param_keys :: "dict \<Rightarrow> error + string list" where
  "sorted_param_keys params =
     (case map_err param_sort_key (map fst params) of
        Inl e \<Rightarrow> Inl e
      | Inr ks \<Rightarrow> Inr (map snd (sort_key fst (zip ks (map fst params)))))"

text \<open>The inner loop: one \<^verbatim>\<open>key=value\<close> line per sorted key.\<close>

fun append_params :: "dict \<Rightarrow> string list \<Rightarrow> string list \<Rightarrow> error + string list" where
  "append_params params [] lines = Inr lines"
| "append_params params (k # ks) lines =
     (case dict_get params k of
        Inl e \<Rightarrow> Inl e
      | Inr v \<Rightarrow> append_params params ks (lines @ [k @ ''='' @ v]))"

text \<open>The loop over the bands.\<close>

fun band_loop :: "(real \<Rightarrow> string) \<Rightarrow> EQPreset \<Rightarrow> int list \<Rightarrow> string list \<Rightarrow> error + string list" where
  "band_loop repr preset [] lines = Inr lines"
| "band_loop repr preset (i # rest) lines =
     (case band_params repr preset i of Inl e \<Rightarrow> Inl e | Inr params \<Rightarrow>
      case sorted_param_keys params of Inl e \<Rightarrow> Inl e | Inr ks \<Rightarrow>
      case append_params params ks lines of Inl e \<Rightarrow> Inl e | Inr lines' \<Rightarrow>
      band_loop repr preset rest lines')"

text \<open>The loop that writes the Spectral Tilt flags.\<close>

fun tilt_loop :: "EQPreset \<Rightarrow> int list \<Rightarrow> string list \<Rightarrow> string list" where
  "tilt_loop preset [] lines = lines"
| "tilt_loop preset (i # rest) lines =
     tilt_loop preset rest
       (lines @ [if i \<le> int (length (filters preset))
                 then ''Band '' @ str_int i @ '' Spectral Tilt=1''
                 else ''Band '' @ str_int i @ '' Spectral Tilt=0''])"

text \<open>\<^verbatim>\<open>s or ""\<close>\<close>

definition or_empty :: "string \<Rightarrow> string" where
  "or_empty s = (if s = [] then [] else s)"

text \<open>The list \<^verbatim>\<open>lines\<close> of \<^verbatim>\<open>eq_preset_to_ffp\<close> as it stands before the final join.\<close>

definition ffp_lines :: "(real \<Rightarrow> string) \<Rightarrow> EQPreset \<Rightarrow> error + string list" where
  "ffp_lines repr preset =
     (let lines = [''[Preset]'', ''Signature=FQ4p'', ''Version=4'',
                   ''Author='' @ or_empty (author preset), ''Tags='' @ or_empty (tags preset),
                   [], ''[Parameters]'']
      in
      case band_loop repr preset (py_range 1 25) lines of Inl e \<Rightarrow> Inl e | Inr lines \<Rightarrow>
      let lines = lines @ [''Processing Mode=0'', ''Processing Resolution=1'', ''Character=0'', ''Gain Scale=1''];
          lines = lines @ [''Output Level='' @ float_str repr (preamp_to_output_level (preamp preset))];
          lines = lines @ [''Output Pan=0'',
                          ''Output Pan Mode=0'',
                          ''Bypass=0'',
                          ''Output Invert Phase=0'',
                          ''Auto Gain=0'',
                          ''Analyzer Show Pre-Processing=1'',
                          ''Analyzer Show Post-Processing=1'',
                          ''Analyzer Show External Spectrum=1'',
                          ''Analyzer External Spectrum=-1'',
                          ''Analyzer Range=2'',
                          ''Analyzer Resolution=3'',
                          ''Analyzer Speed=2'',
                          ''Analyzer Tilt=0'',
                          ''Analyzer Freeze=0'',
                          ''Analyzer Show Collisions=0'',
                          ''Spectrum Grab=0'',
                          ''Display Range=2'',
                          ''Receive Midi=0'',
                          ''Solo Gain=0''];
          lines = tilt_loop preset (py_range 1 25) lines;
          lines = lines @ [[]]
      in Inr lines)"

definition eq_preset_to_ffp :: "(real \<Rightarrow> string) \<Rightarrow> EQPreset \<Rightarrow> error + string" where
  "eq_preset_to_ffp repr preset =
     (case ffp_lines repr preset of Inl e \<Rightarrow> Inl e | Inr lines \<Rightarrow> Inr (join_nl lines))"

section \<open>Conversion of one preset\<close>

text \<open>
  \<^verbatim>\<open>convert_text_to_ffp\<close> on a store of files (path to content). Failures of the file
  system and the messages printed to the console are outside the model.
\<close>

definition convert_text_to_ffp ::
  "(real \<Rightarrow> string) \<Rightarrow> string \<Rightarrow> string \<Rightarrow> string \<Rightarrow> string \<Rightarrow> (string \<rightharpoonup> string) \<Rightarrow> error + (string \<rightharpoonup> string)" where
  "convert_text_to_ffp repr input_text output_file author_arg tags_arg files =
     (case parse_text_preset input_text of Inl e \<Rightarrow> Inl e | Inr preset \<Rightarrow>
      let preset = preset\<lparr>author := author_arg, tags := tags_arg\<rparr> in
      case eq_preset_to_ffp repr preset of Inl e \<Rightarrow> Inl e | Inr ffp_content \<Rightarrow>
      Inr (files(output_file \<mapsto> ffp_content)))"

section \<open>Vocabulary of the results\<close>

text \<open>
  Names for parts of the output, used to state the results: the field names of a band in
  insertion order and in emitted order, the line written for a key, the lines of a band,
  a Spectral Tilt line, the parameters of a band that has a filter, the key of a line and
  the values written under a key, and the fixed lines before and after the bands.
\<close>

definition field_names :: "string list" where
  "field_names = [''Used'', ''Enabled'', ''Frequency'', ''Gain'', ''Q'', ''Shape'', ''Slope'',
     ''Stereo Placement'', ''Speakers'', ''Dynamic Range'', ''Dynamics Enabled'', ''Dynamics Auto'',
     ''Threshold'', ''Attack'', ''Release'', ''External Side Chain'', ''Side Chain Filtering'',
     ''Side Chain Low Frequency'', ''Side Chain High Frequency'', ''Side Chain Audition'',
     ''Spectral Enabled'', ''Spectral Density'', ''Solo'']"

definition sorted_fields :: "string list" where
  "sorted_fields = [''Attack'', ''Dynamic Range'', ''Dynamics Auto'', ''Dynamics Enabled'',
     ''Enabled'', ''External Side Chain'', ''Frequency'', ''Gain'', ''Q'', ''Release'', ''Shape'',
     ''Side Chain Audition'', ''Side Chain Filtering'', ''Side Chain High Frequency'',
     ''Side Chain Low Frequency'', ''Slope'', ''Solo'', ''Speakers'', ''Spectral Density'',
     ''Spectral Enabled'', ''Stereo Placement'', ''Threshold'', ''Used'']"

definition dict_line :: "dict \<Rightarrow> string \<Rightarrow> string" where
  "dict_line d k = k @ ''='' @ (case map_of d k of Some v \<Rightarrow> v | None \<Rightarrow> [])"

definition band_block :: "dict \<Rightarrow> int \<Rightarrow> string list" where
  "band_block d i = map (\<lambda>f. dict_line d (band_key i f)) sorted_fields"

definition tilt_line :: "nat \<Rightarrow> int \<Rightarrow> string" where
  "tilt_line k i = ''Band '' @ str_int i @ '' Spectral Tilt='' @ (if i \<le> int k then ''1'' else ''0'')"

definition overridden_params :: "(real \<Rightarrow> string) \<Rightarrow> int \<Rightarrow> Filter \<Rightarrow> dict" where
  "overridden_params repr i filt =
     dict_set (band_key i ''Shape'') (str_int (filter_type_to_shape (filter_type filt)))
    (dict_set (band_key i ''Q'')
       (float_str repr ((ln (max Q_MIN (min Q_MAX (q filt))) - ln Q_MIN) / (ln Q_MAX - ln Q_MIN)))
    (dict_set (band_key i ''Gain'') (float_str repr (gain filt))
    (dict_set (band_key i ''Frequency'') (float_str repr (log 2 (frequency filt)))
    (dict_set (band_key i ''Enabled'') (if enabled filt then ''1'' else ''0'')
    (dict_set (band_key i ''Used'') ''1''
    (generate_default_band_params i True))))))"

definition line_key :: "string \<Rightarrow> string" where
  "line_key l = takeWhile (\<lambda>c. c \<noteq> CHR ''='') l"

definition values_of :: "string list \<Rightarrow> string \<Rightarrow> string list" where
  "values_of ls k = map (drop (Suc (length k))) (filter (\<lambda>l. line_key l = k) ls)"

definition header_lines :: "EQPreset \<Rightarrow> string list" where
  "header_lines p = [''[Preset]'', ''Signature=FQ4p'', ''Version=4'',
     ''Author='' @ author p, ''Tags='' @ tags p, [], ''[Parameters]'']"

definition global_lines :: "(real \<Rightarrow> string) \<Rightarrow> EQPreset \<Rightarrow> string list" where
  "global_lines repr p = [''Processing Mode=0'', ''Processing Resolution=1'', ''Character=0'',
     ''Gain Scale=1'', ''Output Level='' @ float_str repr (preamp p / 36),
     ''Output Pan=0'', ''Output Pan Mode=0'', ''Bypass=0'', ''Output Invert Phase=0'',
     ''Auto Gain=0'', ''Analyzer Show Pre-Processing=1'', ''Analyzer Show Post-Processing=1'',
     ''Analyzer Show External Spectrum=1'', ''Analyzer External Spectrum=-1'',
     ''Analyzer Range=2'', ''Analyzer Resolution=3'', ''Analyzer Speed=2'', ''Analyzer Tilt=0'',
     ''Analyzer Freeze=0'', ''Analyzer Show Collisions=0'', ''Spectrum Grab=0'',
     ''Display Range=2'', ''Receive Midi=0'', ''Solo Gain=0'']"

definition any_repr :: "real \<Rightarrow> string" where
  "any_repr x = []"

definition off_filter_preset :: EQPreset where
  "off_filter_preset = \<lparr>preamp = - 2.5,
     filters = [\<lparr>enabled = False, filter_type = ''LSC'', frequency = 105, gain = - 8.2, q = 0.7\<rparr>],
     name = [], author = ''JRoot3D'', tags = ''Calibration''\<rparr>"

text \<open>
  For the results on the parser: a pattern without capture groups, what one line adds to
  the filters and does to the preamp (nothing where \<open>parse_line\<close> raises), and sample
  inputs with the presets they parse to.
\<close>

fun groupless :: "re \<Rightarrow> bool" where
  "groupless (Lit l) = True"
| "groupless (OptChar c) = True"
| "groupless (OneOrMore k) = True"
| "groupless (ZeroOrMore k) = True"
| "groupless (Either a b) = (groupless a \<and> groupless b)"
| "groupless (Then a b) = (groupless a \<and> groupless b)"
| "groupless (Group a) = False"

definition line_filters :: "string \<Rightarrow> Filter list" where
  "line_filters raw = (case parse_line raw (0, []) of Inl e \<Rightarrow> [] | Inr st \<Rightarrow> snd st)"

definition line_preamp :: "string \<Rightarrow> real \<Rightarrow> real" where
  "line_preamp raw pa = (case parse_line raw (pa, []) of Inl e \<Rightarrow> pa | Inr st \<Rightarrow> fst st)"

definition empty_preset :: EQPreset where
  "empty_preset = \<lparr>preamp = 0, filters = [], name = [], author = [], tags = []\<rparr>"

definition good_line :: string where
  "good_line = ''Filter 1: ON PK Fc 1000 Hz Gain 3.0 dB Q 1.0''"

definition zero_line :: string where
  "zero_line = ''Filter 25: ON PK Fc 0 Hz Gain -3.0 dB Q 1.0''"

definition long_text :: string where
  "long_text = concat (replicate 24 (good_line @ [CHR 0x0A])) @ zero_line"

definition good_filter :: Filter where
  "good_filter = \<lparr>enabled = True, filter_type = ''PK'', frequency = 1000, gain = 3, q = 1\<rparr>"

definition zero_filter :: Filter where
  "zero_filter = \<lparr>enabled = True, filter_type = ''PK'', frequency = 0, gain = - 3, q = 1\<rparr>"

definition long_preset :: EQPreset where
  "long_preset = \<lparr>preamp = 0, filters = replicate 24 good_filter @ [zero_filter],
     name = [], author = [], tags = []\<rparr>"

definition zero_preset :: EQPreset where
  "zero_preset = \<lparr>preamp = 0, filters = [zero_filter], name = [], author = [], tags = []\<rparr>"

section \<open>Results\<close>

lemma q_to_proq4_value:
  "q_to_proq4 qv t = Inr ((ln (max Q_MIN (min Q_MAX qv)) - ln Q_MIN) / (ln Q_MAX - ln Q_MIN))"
proof -
  have pos: "0 < max Q_MIN (min Q_MAX qv)"
    by (simp add: Q_MIN_def max_def)
  have ne: "ln Q_MAX - ln Q_MIN \<noteq> 0"
    by (simp add: Q_MAX_def Q_MIN_def)
  from pos have "\<not> max Q_MIN (min Q_MAX qv) \<le> 0" by linarith
  with ne show ?thesis
    by (simp add: q_to_proq4_def math_log_def py_div_def Let_def Q_MIN_def Q_MAX_def)
qed

subsection \<open>The Q transform\<close>

text \<open>
  Claim C3. For every \<open>q\<close> and every filter type, \<open>q_to_proq4\<close> clamps \<open>q\<close> to
  \<open>[0.025, 40.0]\<close> and returns \<open>(ln q' - ln 0.025) / (ln 40.0 - ln 0.025)\<close> for the clamped
  \<open>q'\<close>, without raising; the result lies in \<open>[0, 1]\<close>; it is monotonically
  non-decreasing in \<open>q\<close>; it is \<open>0\<close> at \<open>0.025\<close> and \<open>1\<close> at \<open>40.0\<close>; inputs below
  \<open>0.025\<close> or above \<open>40.0\<close> give the results of the boundary values; and the result does
  not depend on the filter type. (Floats as reals: arithmetic is exact.)
\<close>

theorem q_to_proq4_spec:
  "q_to_proq4 qv t = Inr ((ln (max Q_MIN (min Q_MAX qv)) - ln Q_MIN) / (ln Q_MAX - ln Q_MIN))
   \<and> Q_MIN = 0.025 \<and> Q_MAX = 40.0
   \<and> (\<exists>y. q_to_proq4 qv t = Inr y \<and> 0 \<le> y \<and> y \<le> 1)
   \<and> (\<forall>q1 q2 y1 y2. q1 \<le> q2 \<longrightarrow> q_to_proq4 q1 t = Inr y1 \<longrightarrow> q_to_proq4 q2 t = Inr y2 \<longrightarrow> y1 \<le> y2)
   \<and> q_to_proq4 0.025 t = Inr 0 \<and> q_to_proq4 40.0 t = Inr 1
   \<and> (qv \<le> 0.025 \<longrightarrow> q_to_proq4 qv t = q_to_proq4 0.025 t)
   \<and> (40.0 \<le> qv \<longrightarrow> q_to_proq4 qv t = q_to_proq4 40.0 t)
   \<and> q_to_proq4 qv t = q_to_proq4 qv t'"
proof -
  have d: "0 < ln Q_MAX - ln Q_MIN" by (simp add: Q_MAX_def Q_MIN_def)
  have lo: "Q_MIN \<le> max Q_MIN (min Q_MAX qv)" for qv by simp
  have hi: "max Q_MIN (min Q_MAX qv) \<le> Q_MAX" for qv by (simp add: Q_MAX_def Q_MIN_def)
  have pos: "0 < Q_MIN" by (simp add: Q_MIN_def)
  have r: "0 \<le> (ln (max Q_MIN (min Q_MAX qv)) - ln Q_MIN) / (ln Q_MAX - ln Q_MIN) \<and>
           (ln (max Q_MIN (min Q_MAX qv)) - ln Q_MIN) / (ln Q_MAX - ln Q_MIN) \<le> 1"
  proof -
    have a: "ln Q_MIN \<le> ln (max Q_MIN (min Q_MAX qv))" using lo[of qv] pos by (metis ln_mono)
    have "0 < max Q_MIN (min Q_MAX qv)" using lo[of qv] pos by linarith
    then have b: "ln (max Q_MIN (min Q_MAX qv)) \<le> ln Q_MAX" using hi[of qv] by (metis ln_mono)
    from a b d show ?thesis by (simp add: divide_simps)
  qed
  have mono: "y1 \<le> y2" if "q1 \<le> q2" "q_to_proq4 q1 t = Inr y1" "q_to_proq4 q2 t = Inr y2" for q1 q2 y1 y2
  proof -
    have c: "max Q_MIN (min Q_MAX q1) \<le> max Q_MIN (min Q_MAX q2)" using that(1) by (simp add: max_def min_def)
    have "0 < max Q_MIN (min Q_MAX q1)" using lo[of q1] pos by linarith
    then have "ln (max Q_MIN (min Q_MAX q1)) \<le> ln (max Q_MIN (min Q_MAX q2))" using c by (metis ln_mono)
    then have "(ln (max Q_MIN (min Q_MAX q1)) - ln Q_MIN) / (ln Q_MAX - ln Q_MIN)
        \<le> (ln (max Q_MIN (min Q_MAX q2)) - ln Q_MIN) / (ln Q_MAX - ln Q_MIN)"
      using d by (intro divide_right_mono) simp_all
    with that(2,3) show ?thesis by (simp add: q_to_proq4_value)
  qed
  have b0: "q_to_proq4 0.025 t = Inr 0" by (simp add: q_to_proq4_value Q_MIN_def Q_MAX_def)
  have b1: "q_to_proq4 40.0 t = Inr 1" using d by (simp add: q_to_proq4_value Q_MIN_def Q_MAX_def)
  have c0: "qv \<le> 0.025 \<Longrightarrow> q_to_proq4 qv t = q_to_proq4 0.025 t"
    by (simp add: q_to_proq4_value Q_MIN_def Q_MAX_def max_def min_def)
  have c1: "40.0 \<le> qv \<Longrightarrow> q_to_proq4 qv t = q_to_proq4 40.0 t"
    by (simp add: q_to_proq4_value Q_MIN_def Q_MAX_def max_def min_def)
  have rng: "\<exists>y. q_to_proq4 qv t = Inr y \<and> 0 \<le> y \<and> y \<le> 1"
    using r by (simp only: q_to_proq4_value) blast
  have ind: "q_to_proq4 qv t = q_to_proq4 qv t'"
    by (simp only: q_to_proq4_value)
  have m: "\<forall>q1 q2 y1 y2. q1 \<le> q2 \<longrightarrow> q_to_proq4 q1 t = Inr y1 \<longrightarrow> q_to_proq4 q2 t = Inr y2 \<longrightarrow> y1 \<le> y2"
    using mono by blast
  show ?thesis
    apply (intro conjI)
            apply (rule q_to_proq4_value)
           apply (rule Q_MIN_def)
          apply (rule Q_MAX_def)
         apply (rule rng)
        apply (rule m)
       apply (rule b0)
      apply (rule b1)
     apply (rule impI, erule c0)
    apply (rule impI, erule c1)
    apply (rule ind)
    done
qed

theorem q_to_proq4_spec_witness:
  "(40.0 :: real) \<le> 100 \<and> q_to_proq4 100 ''PK'' = Inr 1
   \<and> (1 / 100 :: real) \<le> 0.025 \<and> q_to_proq4 (1 / 100) ''PK'' = Inr 0
   \<and> q_to_proq4 100 ''PK'' = q_to_proq4 100 ''HP''"
proof -
  have h1: "(40.0 :: real) \<le> 100" by simp
  have h2: "(1 / 100 :: real) \<le> 0.025" by simp
  from q_to_proq4_spec [of 100 "''PK''" "''HP''"]
  have a1: "q_to_proq4 40.0 ''PK'' = Inr 1"
    and a2: "(40.0 :: real) \<le> 100 \<longrightarrow> q_to_proq4 100 ''PK'' = q_to_proq4 40.0 ''PK''"
    and a3: "q_to_proq4 100 ''PK'' = q_to_proq4 100 ''HP''"
    by blast+
  from q_to_proq4_spec [of "1 / 100" "''PK''" "''HP''"]
  have b1: "q_to_proq4 0.025 ''PK'' = Inr 0"
    and b2: "(1 / 100 :: real) \<le> 0.025 \<longrightarrow> q_to_proq4 (1 / 100) ''PK'' = q_to_proq4 0.025 ''PK''"
    by blast+
  from a1 a2 h1 have a: "q_to_proq4 100 ''PK'' = Inr 1" by (simp only:)
  from b1 b2 h2 have b: "q_to_proq4 (1 / 100) ''PK'' = Inr 0" by (simp only:)
  from h1 h2 a a3 b show ?thesis by blast
qed

subsection \<open>Closed forms of the emitter\<close>

lemma is_digit_digit_char: "d < 10 \<Longrightarrow> is_digit (digit_char d)"
  by (simp add: is_digit_def digit_char_def)

lemma digit_val_digit_char: "d < 10 \<Longrightarrow> digit_val (digit_char d) = d"
  by (simp add: digit_val_def digit_char_def)

lemma show_nat_digits: "list_all is_digit (show_nat n)"
proof (induction n rule: show_nat.induct)
  case (1 n)
  show ?case
  proof (cases "n < 10")
    case True
    then show ?thesis by (subst show_nat.simps) (simp add: is_digit_digit_char)
  next
    case False
    with 1 show ?thesis by (subst show_nat.simps) (simp add: is_digit_digit_char)
  qed
qed

lemma show_nat_nonempty: "show_nat n \<noteq> []"
  by (subst show_nat.simps) simp

lemma nat_of_digits_snoc: "nat_of_digits (xs @ [c]) = 10 * nat_of_digits xs + digit_val c"
  by (simp add: nat_of_digits_def)

lemma nat_of_digits_show_nat: "nat_of_digits (show_nat n) = n"
proof (induction n rule: show_nat.induct)
  case (1 n)
  show ?case
  proof (cases "n < 10")
    case True
    then show ?thesis
      by (subst show_nat.simps) (simp add: nat_of_digits_def digit_val_digit_char)
  next
    case False
    with 1 show ?thesis
      by (subst show_nat.simps) (simp add: nat_of_digits_snoc digit_val_digit_char)
  qed
qed

lemma str_int_nonneg: "0 \<le> i \<Longrightarrow> str_int i = show_nat (nat i)"
  by (simp add: str_int_def)

lemma py_int_show_nat: "py_int (show_nat n) = Inr (int n)"
  by (simp add: py_int_def show_nat_nonempty show_nat_digits nat_of_digits_show_nat)

lemma takeWhile_digits_then:
  "list_all is_digit ds \<Longrightarrow> \<not> is_digit c \<Longrightarrow> takeWhile is_digit (ds @ c # r) = ds"
  by (induction ds) auto

lemma rmatch_OneOrMore_hd:
  assumes "takeWhile (in_cls k) s = w" "w \<noteq> []"
  shows "\<exists>rest. rmatch (OneOrMore k) s = ([], drop (length w) s) # rest"
proof -
  from assms obtain m where m: "length w = Suc m" by (cases w) auto
  then show ?thesis using assms(1) by simp
qed

lemma rmatch_Then_hd:
  assumes "rmatch a s = (g1, s1) # ra" "rmatch b s1 = (g2, s2) # rb"
  shows "\<exists>rest. rmatch (Then a b) s = (g1 @ g2, s2) # rest"
  using assms by simp

lemma rmatch_Group_hd:
  assumes "rmatch a s = (g, s1) # ra"
  shows "\<exists>rest. rmatch (Group a) s = (take (length s - length s1) s # g, s1) # rest"
  using assms by simp

lemma re_search_hd: "rmatch r s = (g, s1) # rest \<Longrightarrow> re_search r s = Some g"
  by (cases s) simp_all

lemma re_search_band_key:
  assumes "0 \<le> i"
  shows "re_search band_re (band_key i f) = Some [str_int i]"
proof -
  let ?ds = "show_nat (nat i)"
  let ?t = "?ds @ CHR '' '' # f"
  have nd: "\<not> is_digit CHR '' ''" by (simp add: is_digit_def)
  have "takeWhile is_digit ?t = ?ds"
    by (rule takeWhile_digits_then [OF show_nat_digits nd])
  moreover have "in_cls Digit = is_digit" by (rule ext) simp
  ultimately have tw: "takeWhile (in_cls Digit) ?t = ?ds" by simp
  from rmatch_OneOrMore_hd [OF tw show_nat_nonempty]
  obtain r1 where r1: "rmatch (OneOrMore Digit) ?t = ([], CHR '' '' # f) # r1"
    by auto
  from rmatch_Group_hd [OF r1]
  obtain r2 where r2: "rmatch (Group (OneOrMore Digit)) ?t = ([?ds], CHR '' '' # f) # r2"
    by auto
  have l: "rmatch (Lit ''Band '') (''Band '' @ ?t) = ([], ?t) # []"
    by simp
  from rmatch_Then_hd [OF l r2]
  obtain r3 where "rmatch (Then (Lit ''Band '') (Group (OneOrMore Digit))) (''Band '' @ ?t)
      = ([?ds], CHR '' '' # f) # r3"
    by auto
  then have "re_search band_re (''Band '' @ ?t) = Some [?ds]"
    unfolding band_re_def cat.simps by (rule re_search_hd)
  then show ?thesis
    using assms by (simp add: band_key_def str_int_nonneg)
qed

lemma param_sort_key_band_key:
  "0 \<le> i \<Longrightarrow> param_sort_key (band_key i f) = Inr (i, band_key i f)"
  by (simp add: param_sort_key_def re_search_band_key group_def str_int_nonneg py_int_show_nat)

lemma sort_field_names: "sort field_names = sorted_fields"
  unfolding field_names_def sorted_fields_def by code_simp

lemma append_le_append: "(p @ a \<le> p @ b) = (a \<le> (b :: string))"
  by (induction p) simp_all

lemma insort_key_map:
  assumes "\<And>a b. (k (h a) \<le> k (h b)) = (a \<le> b)"
  shows "insort_key k (h x) (map h xs) = map h (insort x xs)"
  by (induction xs) (simp_all add: assms)

lemma sort_key_map:
  assumes "\<And>a b. (k (h a) \<le> k (h b)) = (a \<le> b)"
  shows "sort_key k (map h xs) = map h (sort xs)"
proof (induction xs)
  case Nil
  show ?case by simp
next
  case (Cons x xs)
  then show ?case using insort_key_map [of k h x "sort xs", OF assms] by simp
qed

lemma map_err_all_Inr: "(\<And>x. x \<in> set xs \<Longrightarrow> f x = Inr (g x)) \<Longrightarrow> map_err f xs = Inr (map g xs)"
  by (induction xs) simp_all

lemma sorted_param_keys_band:
  assumes i: "0 \<le> i" and keys: "map fst d = map (band_key i) field_names"
  shows "sorted_param_keys d = Inr (map (band_key i) sorted_fields)"
proof -
  define h where "h = (\<lambda>f. ((i, band_key i f), band_key i f))"
  have me: "map_err param_sort_key (map fst d) = Inr (map (\<lambda>f. (i, band_key i f)) field_names)"
  proof -
    have "map_err param_sort_key (map (band_key i) field_names)
            = Inr (map (\<lambda>x. (i, x)) (map (band_key i) field_names))"
      by (rule map_err_all_Inr) (auto simp: param_sort_key_band_key [OF i])
    then show ?thesis by (simp add: keys comp_def)
  qed
  have z: "zip (map (\<lambda>f. (i, band_key i f)) field_names) (map fst d) = map h field_names"
    unfolding keys h_def by (simp add: zip_map_map) (simp add: zip_same_conv_map)
  have ord: "\<And>a b. (fst (h a) \<le> fst (h b)) = (a \<le> b)"
    using append_le_append [of "''Band '' @ str_int i @ '' ''"]
    by (simp add: h_def less_eq_prod_simp band_key_def)
  have "sort_key fst (map h field_names) = map h (sort field_names)"
    by (rule sort_key_map [of fst h, OF ord])
  then have "map snd (sort_key fst (map h field_names)) = map (band_key i) sorted_fields"
    by (simp add: sort_field_names h_def comp_def)
  then show ?thesis
    by (simp only: sorted_param_keys_def me z sum.case)
qed

lemma append_params_closed:
  "set ks \<subseteq> fst ` set d \<Longrightarrow> append_params d ks lines = Inr (lines @ map (dict_line d) ks)"
proof (induction ks arbitrary: lines)
  case Nil
  show ?case by simp
next
  case (Cons k ks)
  from Cons.prems obtain v where v: "map_of d k = Some v"
    by (metis list.set_intros(1) subsetD weak_map_of_SomeI map_of_eq_None_iff not_Some_eq)
  from Cons.prems have "set ks \<subseteq> fst ` set d" by simp
  from Cons.IH [OF this] v show ?case by (simp add: dict_get_def dict_line_def)
qed

lemma set_sorted_fields: "set sorted_fields = set field_names"
  using sort_field_names by (metis set_sort)

lemma write_band:
  assumes i: "0 \<le> i" and keys: "map fst d = map (band_key i) field_names"
  shows "sorted_param_keys d = Inr (map (band_key i) sorted_fields)"
    and "append_params d (map (band_key i) sorted_fields) lines = Inr (lines @ band_block d i)"
proof -
  show "sorted_param_keys d = Inr (map (band_key i) sorted_fields)"
    by (rule sorted_param_keys_band [OF i keys])
  have "set (map (band_key i) sorted_fields) \<subseteq> fst ` set d"
  proof -
    have "fst ` set d = set (map fst d)" by simp
    also have "\<dots> = band_key i ` set field_names" by (simp add: keys)
    finally show ?thesis by (simp add: set_sorted_fields)
  qed
  from append_params_closed [OF this]
  show "append_params d (map (band_key i) sorted_fields) lines = Inr (lines @ band_block d i)"
    by (simp add: band_block_def comp_def)
qed

lemma default_keys: "map fst (generate_default_band_params i u) = map (band_key i) field_names"
  by (simp add: generate_default_band_params_def field_names_def)

lemma dict_set_keys: "k \<in> set (map fst d) \<Longrightarrow> map fst (dict_set k v d) = map fst d"
  by (simp add: dict_set_def update_keys)

lemma overridden_keys: "map fst (overridden_params repr i filt) = map (band_key i) field_names"
proof -
  have m: "f \<in> set field_names \<Longrightarrow> map fst d = map (band_key i) field_names
        \<Longrightarrow> map fst (dict_set (band_key i f) v d) = map (band_key i) field_names" for f v d
    using dict_set_keys [of "band_key i f" d v] by simp
  show ?thesis
    unfolding overridden_params_def
    by (intro m default_keys) (simp_all add: field_names_def)
qed

lemma band_params_filter:
  assumes "1 \<le> i" "i \<le> int (length (filters p))"
  shows "band_params repr p i =
    (if frequency (filters p ! nat (i - 1)) \<le> 0 then Inl ValueError
     else Inr (overridden_params repr i (filters p ! nat (i - 1))))"
proof -
  have ix: "py_index (filters p) (i - 1) = Inr (filters p ! nat (i - 1))"
    using assms by (simp add: py_index_def Let_def)
  show ?thesis
    using assms(2)
    by (simp add: band_params_def ix Let_def frequency_to_proq4_def math_log2_def
        q_to_proq4_value overridden_params_def)
qed

lemma band_params_unused:
  "\<not> i \<le> int (length (filters p)) \<Longrightarrow> band_params repr p i = Inr (generate_default_band_params i False)"
  by (simp add: band_params_def)

lemma band_params_keys:
  assumes "1 \<le> i" "band_params repr p i = Inr d"
  shows "map fst d = map (band_key i) field_names"
proof (cases "i \<le> int (length (filters p))")
  case True
  with assms band_params_filter [OF assms(1) True, of repr] show ?thesis
    by (auto simp: overridden_keys split: if_splits)
next
  case False
  with assms band_params_unused [OF False, of repr] show ?thesis
    by (auto simp: default_keys)
qed

lemma band_loop_closed:
  assumes "\<forall>i \<in> set js. 1 \<le> i"
  shows "band_loop repr p js lines =
    (case map_err (band_params repr p) js of
       Inl e \<Rightarrow> Inl e
     | Inr ds \<Rightarrow> Inr (lines @ concat (map2 band_block ds js)))"
  using assms
proof (induction js arbitrary: lines)
  case Nil
  show ?case by simp
next
  case (Cons i js)
  then have i: "1 \<le> i" and js: "\<forall>i \<in> set js. 1 \<le> i" by simp_all
  show ?case
  proof (cases "band_params repr p i")
    case (Inl e)
    then show ?thesis by simp
  next
    case (Inr d)
    from i have i0: "0 \<le> i" by simp
    note k = band_params_keys [OF i Inr]
    from write_band [OF i0 k] Cons.IH [OF js] Inr show ?thesis
      by (simp split: sum.splits)
  qed
qed

lemma tilt_loop_closed:
  "tilt_loop p js lines = lines @ map (tilt_line (length (filters p))) js"
  by (induction js arbitrary: lines) (simp_all add: tilt_line_def)

lemma map_err_Inr_iff:
  "map_err f xs = Inr ys \<longleftrightarrow> length ys = length xs \<and> (\<forall>j < length xs. f (xs ! j) = Inr (ys ! j))"
proof (induction xs arbitrary: ys)
  case Nil
  show ?case by auto
next
  case (Cons x xs)
  show ?case
  proof (cases ys)
    case Nil
    then show ?thesis by (auto split: sum.splits)
  next
    case (Cons y ys')
    then show ?thesis
      using Cons.IH [of ys']
      by (auto split: sum.splits simp: nth_Cons' less_Suc_eq_0_disj)
  qed
qed

lemma map_err_Inl: "map_err f xs = Inl e \<Longrightarrow> \<exists>x \<in> set xs. f x = Inl e"
  by (induction xs) (auto split: sum.splits)

lemma map_err_all: "(\<forall>x \<in> set xs. \<exists>y. f x = Inr y) \<Longrightarrow> \<exists>ys. map_err f xs = Inr ys"
  by (induction xs) (auto split: sum.splits)

lemma ffp_lines_closed:
  "ffp_lines repr p =
    (case map_err (band_params repr p) [1..24] of
       Inl e \<Rightarrow> Inl e
     | Inr ds \<Rightarrow> Inr (header_lines p @ concat (map2 band_block ds [1..24]) @ global_lines repr p
                      @ map (tilt_line (length (filters p))) [1..24] @ [[]]))"
proof -
  have r: "py_range 1 25 = [1..24]" by (simp add: py_range_def)
  have a: "\<forall>i \<in> set [1..24]. (1::int) \<le> i" by simp
  show ?thesis
    unfolding ffp_lines_def r Let_def band_loop_closed [OF a] tilt_loop_closed
    by (simp add: header_lines_def global_lines_def or_empty_def preamp_to_output_level_def
        split: sum.splits)
qed

lemma digits_split:
  assumes "list_all is_digit xs" "list_all is_digit ys" "\<not> is_digit c"
    and "xs @ c # u = ys @ c # v"
  shows "xs = ys \<and> u = v"
proof -
  have "takeWhile is_digit (xs @ c # u) = xs" "takeWhile is_digit (ys @ c # v) = ys"
    using assms(1-3) by (simp_all add: takeWhile_digits_then)
  with assms(4) have "xs = ys" by simp
  with assms(4) show ?thesis by simp
qed

lemma show_nat_inject: "show_nat a = show_nat b \<Longrightarrow> a = b"
  by (metis nat_of_digits_show_nat)

lemma band_key_inject:
  assumes "0 \<le> i" "0 \<le> j"
  shows "(band_key i f = band_key j g) = (i = j \<and> f = g)"
proof
  assume "band_key i f = band_key j g"
  then have "show_nat (nat i) @ CHR '' '' # f = show_nat (nat j) @ CHR '' '' # g"
    using assms by (simp add: band_key_def str_int_nonneg)
  from digits_split [OF show_nat_digits show_nat_digits _ this]
  have "show_nat (nat i) = show_nat (nat j) \<and> f = g" by (simp add: is_digit_def)
  with assms show "i = j \<and> f = g" by (auto dest: show_nat_inject)
qed simp

lemma digit_not_eq: "list_all is_digit ds \<Longrightarrow> CHR ''='' \<notin> set ds"
  by (auto simp: list_all_iff is_digit_def)

lemma band_key_no_eq: "0 \<le> i \<Longrightarrow> CHR ''='' \<notin> set f \<Longrightarrow> CHR ''='' \<notin> set (band_key i f)"
  using digit_not_eq [OF show_nat_digits] by (simp add: band_key_def str_int_nonneg)

lemma line_key_append: "CHR ''='' \<notin> set k \<Longrightarrow> line_key (k @ CHR ''='' # v) = k"
  unfolding line_key_def by (induction k) auto

lemma line_key_dict_line:
  "0 \<le> i \<Longrightarrow> CHR ''='' \<notin> set f \<Longrightarrow> line_key (dict_line d (band_key i f)) = band_key i f"
  using line_key_append [OF band_key_no_eq] by (simp add: dict_line_def)

lemma tilt_line_eq:
  "tilt_line k i = band_key i ''Spectral Tilt'' @ CHR ''='' # (if i \<le> int k then ''1'' else ''0'')"
  by (simp add: tilt_line_def band_key_def)

lemma line_key_tilt_line: "0 \<le> i \<Longrightarrow> line_key (tilt_line k i) = band_key i ''Spectral Tilt''"
  unfolding tilt_line_eq by (rule line_key_append, rule band_key_no_eq) simp_all

lemma fields_no_eq: "f \<in> set sorted_fields \<Longrightarrow> CHR ''='' \<notin> set f"
  by (auto simp: sorted_fields_def)

lemma distinct_sorted_fields: "distinct sorted_fields"
  by (simp add: sorted_fields_def)

lemma filter_eq_distinct: "distinct xs \<Longrightarrow> g \<in> set xs \<Longrightarrow> filter (\<lambda>f. f = g) xs = [g]"
  by (induction xs) (auto simp: filter_empty_conv)

lemma filter_block:
  assumes "0 \<le> j" "0 \<le> n"
  shows "filter (\<lambda>l. line_key l = band_key n g) (band_block d j) =
    (if j = n \<and> g \<in> set sorted_fields then [dict_line d (band_key n g)] else [])"
proof -
  have "filter (\<lambda>l. line_key l = band_key n g) (band_block d j)
      = map (\<lambda>f. dict_line d (band_key j f))
          (filter (\<lambda>f. line_key (dict_line d (band_key j f)) = band_key n g) sorted_fields)"
    by (simp add: band_block_def filter_map comp_def)
  also have "filter (\<lambda>f. line_key (dict_line d (band_key j f)) = band_key n g) sorted_fields
      = filter (\<lambda>f. j = n \<and> f = g) sorted_fields"
    by (rule filter_cong)
      (simp_all add: line_key_dict_line [OF assms(1) fields_no_eq] band_key_inject [OF assms])
  also have "\<dots> = (if j = n \<and> g \<in> set sorted_fields then [g] else [])"
    using filter_eq_distinct [OF distinct_sorted_fields, of g]
    by (auto simp: filter_empty_conv)
  finally show ?thesis by auto
qed

lemma band_key_prefix: "prefix ''Band '' (band_key i f)"
  by (simp add: band_key_def)

lemma header_no_band: "l \<in> set (header_lines p) \<Longrightarrow> \<not> prefix ''Band '' (line_key l)"
  by (auto simp: header_lines_def line_key_def)

lemma global_no_band: "l \<in> set (global_lines repr p) \<Longrightarrow> \<not> prefix ''Band '' (line_key l)"
  by (auto simp: global_lines_def line_key_def)

lemma concat_map2_none:
  "j \<notin> set js \<Longrightarrow> concat (map2 (\<lambda>d ja. if ja = j then G d else []) ds js) = []"
proof (induction js arbitrary: ds)
  case Nil
  show ?case by simp
next
  case (Cons a js)
  from Cons.prems have "j \<noteq> a" "j \<notin> set js" by simp_all
  with Cons.IH show ?case by (cases ds) (simp_all del: concat_eq_Nil_conv)
qed

lemma concat_map2_pick:
  assumes "length ds = length js" "distinct js" "n < length js"
  shows "concat (map2 (\<lambda>d j. if j = js ! n then G d else []) ds js) = G (ds ! n)"
  using assms
proof (induction ds js arbitrary: n rule: list_induct2)
  case Nil
  then show ?case by simp
next
  case (Cons d ds j js)
  show ?case
  proof (cases n)
    case 0
    from Cons.prems(1) have "j \<notin> set js" by simp
    from concat_map2_none [OF this, of G ds] 0 show ?thesis
      by (simp del: concat_eq_Nil_conv)
  next
    case (Suc m)
    with Cons.prems have m: "m < length js" "distinct js" "j \<noteq> js ! m" by auto
    from Cons.IH [OF m(2) m(1)] m(3) Suc show ?thesis by simp
  qed
qed

lemma upto_1_24: "length [1..24::int] = 24" "distinct [1..24::int]"
  by simp_all

lemma nth_1_24: "1 \<le> n \<Longrightarrow> n \<le> 24 \<Longrightarrow> [1..24] ! nat (n - 1) = n"
  by (simp add: nth_upto)

lemma filter_blocks:
  assumes len: "length ds = 24" and n: "1 \<le> n" "n \<le> 24"
  shows "filter (\<lambda>l. line_key l = band_key n g) (concat (map2 band_block ds [1..24]))
    = (if g \<in> set sorted_fields then [dict_line (ds ! nat (n - 1)) (band_key n g)] else [])"
proof -
  let ?P = "\<lambda>l. line_key l = band_key n g"
  let ?F = "\<lambda>d. dict_line d (band_key n g)"
  from n have n0: "0 \<le> n" by simp
  have blk: "filter ?P (band_block d j)
          = (if j = [1..24] ! nat (n - 1) then (if g \<in> set sorted_fields then [?F d] else []) else [])"
    if "(d, j) \<in> set (zip ds [1..24])" for d j
  proof -
    from that have "j \<in> set [1..24]" by (rule set_zip_rightD)
    then have "0 \<le> j" by simp
    from filter_block [OF this n0] show ?thesis
      by (simp add: nth_1_24 [OF n])
  qed
  have "filter ?P (concat (map2 band_block ds [1..24]))
      = concat (map (filter ?P) (map2 band_block ds [1..24]))"
    by (rule filter_concat)
  also have "map (filter ?P) (map2 band_block ds [1..24])
      = map2 (\<lambda>d j. if j = [1..24] ! nat (n - 1) then (if g \<in> set sorted_fields then [?F d] else []) else []) ds [1..24]"
    using blk by auto
  also have "concat \<dots> = (if g \<in> set sorted_fields then [?F (ds ! nat (n - 1))] else [])"
    by (rule concat_map2_pick) (use n len in simp_all)
  finally show ?thesis .
qed

lemma filter_tilts:
  assumes n: "1 \<le> n" "n \<le> 24"
  shows "filter (\<lambda>l. line_key l = band_key n g) (map (tilt_line k) [1..24])
    = (if g = ''Spectral Tilt'' then [tilt_line k n] else [])"
proof -
  from n have n0: "0 \<le> n" by simp
  have "filter (\<lambda>l. line_key l = band_key n g) (map (tilt_line k) [1..24])
      = map (tilt_line k) (filter (\<lambda>j. line_key (tilt_line k j) = band_key n g) [1..24])"
    by (simp add: filter_map comp_def)
  also have "filter (\<lambda>j. line_key (tilt_line k j) = band_key n g) [1..24]
      = filter (\<lambda>j. j = n \<and> g = ''Spectral Tilt'') [1..24]"
    by (rule filter_cong) (auto simp: line_key_tilt_line band_key_inject [OF _ n0])
  also have "\<dots> = (if g = ''Spectral Tilt'' then [n] else [])"
  proof (cases "g = ''Spectral Tilt''")
    case True
    have "filter (\<lambda>j. j = n) [1..24] = [n]"
      by (rule filter_eq_distinct) (use n in simp_all)
    with True show ?thesis by simp
  next
    case False
    then show ?thesis by simp
  qed
  finally show ?thesis by auto
qed

lemma filter_no_band:
  assumes "\<And>l. l \<in> set xs \<Longrightarrow> \<not> prefix ''Band '' (line_key l)"
  shows "filter (\<lambda>l. line_key l = band_key n g) xs = []"
proof -
  have "line_key l \<noteq> band_key n g" if "l \<in> set xs" for l
    using assms [OF that] band_key_prefix [of n g] by auto
  then show ?thesis by (simp add: filter_empty_conv)
qed

lemma tilt_not_field: "''Spectral Tilt'' \<notin> set sorted_fields"
  by (simp add: sorted_fields_def)

lemma filter_output:
  assumes len: "length ds = 24" and n: "1 \<le> n" "n \<le> 24"
  shows "filter (\<lambda>l. line_key l = band_key n g)
       (header_lines p @ concat (map2 band_block ds [1..24]) @ global_lines repr p
          @ map (tilt_line k) [1..24] @ [[]])
    = (if g \<in> set sorted_fields then [dict_line (ds ! nat (n - 1)) (band_key n g)]
       else if g = ''Spectral Tilt'' then [tilt_line k n] else [])"
proof -
  have e: "line_key [] \<noteq> band_key n g"
    by (simp add: line_key_def band_key_def)
  show ?thesis
    using tilt_not_field
    by (auto simp: filter_blocks [OF len n] filter_tilts [OF n] e
        filter_no_band [OF header_no_band] filter_no_band [OF global_no_band])
qed

lemma band_params_Inl:
  assumes "1 \<le> i"
  shows "band_params repr p i = Inl e \<longleftrightarrow>
    e = ValueError \<and> i \<le> int (length (filters p)) \<and> frequency (filters p ! nat (i - 1)) \<le> 0"
proof (cases "i \<le> int (length (filters p))")
  case True
  from band_params_filter [OF assms True, of repr] True show ?thesis by auto
next
  case False
  from band_params_unused [OF False, of repr] False show ?thesis by auto
qed

lemma take24_nonpos:
  "(\<exists>f \<in> set (take 24 fs). frequency f \<le> 0) \<longleftrightarrow>
   (\<exists>i \<in> set [1..24]. i \<le> int (length fs) \<and> frequency (fs ! nat (i - 1)) \<le> 0)"
proof
  assume "\<exists>f \<in> set (take 24 fs). frequency f \<le> 0"
  then obtain m where m: "m < length (take 24 fs)" "frequency (take 24 fs ! m) \<le> 0"
    by (auto simp: in_set_conv_nth)
  then have "int m + 1 \<in> set [1..24]" "int m + 1 \<le> int (length fs)"
    "frequency (fs ! nat (int m + 1 - 1)) \<le> 0"
    by auto
  then show "\<exists>i \<in> set [1..24]. i \<le> int (length fs) \<and> frequency (fs ! nat (i - 1)) \<le> 0"
    by blast
next
  assume "\<exists>i \<in> set [1..24]. i \<le> int (length fs) \<and> frequency (fs ! nat (i - 1)) \<le> 0"
  then obtain i where i: "1 \<le> i" "i \<le> 24" "i \<le> int (length fs)" "frequency (fs ! nat (i - 1)) \<le> 0"
    by auto
  then have "nat (i - 1) < length (take 24 fs)" by auto
  moreover from this have "take 24 fs ! nat (i - 1) = fs ! nat (i - 1)" by simp
  ultimately show "\<exists>f \<in> set (take 24 fs). frequency f \<le> 0"
    using i(4) by (metis nth_mem)
qed

lemma bands_error_iff:
  "map_err (band_params repr p) [1..24] = Inl e \<longleftrightarrow>
     e = ValueError \<and> (\<exists>f \<in> set (take 24 (filters p)). frequency f \<le> 0)"
proof
  assume "map_err (band_params repr p) [1..24] = Inl e"
  from map_err_Inl [OF this] obtain i where i: "i \<in> set [1..24]" "band_params repr p i = Inl e"
    by auto
  then have "1 \<le> i" by simp
  from band_params_Inl [OF this, of repr p e] i show
    "e = ValueError \<and> (\<exists>f \<in> set (take 24 (filters p)). frequency f \<le> 0)"
    unfolding take24_nonpos by blast
next
  assume a: "e = ValueError \<and> (\<exists>f \<in> set (take 24 (filters p)). frequency f \<le> 0)"
  then obtain i where i: "i \<in> set [1..24]" "i \<le> int (length (filters p))"
      "frequency (filters p ! nat (i - 1)) \<le> 0"
    unfolding take24_nonpos by blast
  then have i1: "1 \<le> i" by simp
  from band_params_Inl [OF i1, of repr p ValueError] i
  have bad: "band_params repr p i = Inl ValueError" by simp
  show "map_err (band_params repr p) [1..24] = Inl e"
  proof (cases "map_err (band_params repr p) [1..24]")
    case (Inl e')
    from map_err_Inl [OF this] obtain j where "j \<in> set [1..24]" "band_params repr p j = Inl e'"
      by auto
    moreover from this have "1 \<le> j" by simp
    ultimately have "e' = ValueError" using band_params_Inl [of j repr p e'] by simp
    with Inl a show ?thesis by simp
  next
    case (Inr ds)
    from i(1) have r: "1 \<le> i" "i \<le> 24" by simp_all
    then have "nat (i - 1) < length [1..24::int]" by simp
    with Inr have "band_params repr p ([1..24] ! nat (i - 1)) = Inr (ds ! nat (i - 1))"
      unfolding map_err_Inr_iff by blast
    with bad show ?thesis by (simp add: nth_1_24 [OF r])
  qed
qed

lemma ffp_lines_error_iff:
  "ffp_lines repr p = Inl e \<longleftrightarrow>
     e = ValueError \<and> (\<exists>f \<in> set (take 24 (filters p)). frequency f \<le> 0)"
  unfolding ffp_lines_closed using bands_error_iff [of repr p e] by (auto split: sum.splits)

lemma ffp_lines_Inr:
  assumes "ffp_lines repr p = Inr ls"
  obtains ds where "length ds = 24"
    and "\<And>n. 1 \<le> n \<Longrightarrow> n \<le> 24 \<Longrightarrow> band_params repr p n = Inr (ds ! nat (n - 1))"
    and "ls = header_lines p @ concat (map2 band_block ds [1..24]) @ global_lines repr p
                @ map (tilt_line (length (filters p))) [1..24] @ [[]]"
proof -
  from assms obtain ds where ds: "map_err (band_params repr p) [1..24] = Inr ds"
    and ls: "ls = header_lines p @ concat (map2 band_block ds [1..24]) @ global_lines repr p
                @ map (tilt_line (length (filters p))) [1..24] @ [[]]"
    unfolding ffp_lines_closed by (auto split: sum.splits)
  from ds have len: "length ds = 24"
    and all: "\<forall>j < 24. band_params repr p ([1..24] ! j) = Inr (ds ! j)"
    by (simp_all add: map_err_Inr_iff)
  have bp: "band_params repr p n = Inr (ds ! nat (n - 1))" if n: "1 \<le> n" "n \<le> 24" for n
  proof -
    from n have "nat (n - 1) < 24" by simp
    with all have "band_params repr p ([1..24] ! nat (n - 1)) = Inr (ds ! nat (n - 1))" by blast
    then show ?thesis by (simp add: nth_1_24 [OF n])
  qed
  show ?thesis by (rule that [OF len _ ls]) (rule bp)
qed

subsection \<open>Values written for a band\<close>

lemma default_sets_differ:
  "\<forall>f \<in> set field_names.
     (map_of (generate_default_band_params n True) (band_key n f)
        \<noteq> map_of (generate_default_band_params n False) (band_key n f))
     = (f \<in> {''Used'', ''Threshold'', ''Side Chain Low Frequency'', ''Side Chain High Frequency''})"
  unfolding field_names_def generate_default_band_params_def band_key_def
  by simp

lemma overridden_frame:
  assumes "k \<notin> band_key n ` {''Used'', ''Enabled'', ''Frequency'', ''Gain'', ''Q'', ''Shape''}"
  shows "map_of (overridden_params repr n filt) k = map_of (generate_default_band_params n True) k"
  using assms by (simp add: overridden_params_def dict_set_def update_conv')


lemma values_of_dict_line:
  "map (drop (Suc (length k))) [dict_line d k] = [case map_of d k of Some v \<Rightarrow> v | None \<Rightarrow> []]"
  by (simp add: dict_line_def)

lemma ffp_lines_Inr_ex:
  assumes "ffp_lines repr p = Inr ls"
  shows "\<exists>ds. length ds = 24
    \<and> (\<forall>n. 1 \<le> n \<longrightarrow> n \<le> 24 \<longrightarrow> band_params repr p n = Inr (ds ! nat (n - 1)))
    \<and> ls = header_lines p @ concat (map2 band_block ds [1..24]) @ global_lines repr p
                @ map (tilt_line (length (filters p))) [1..24] @ [[]]"
  by (rule ffp_lines_Inr [OF assms]) blast

lemma band_values:
  assumes "ffp_lines repr p = Inr ls" "1 \<le> n" "n \<le> 24" "g \<in> set sorted_fields"
  shows "\<exists>d. band_params repr p n = Inr d \<and>
    values_of ls (band_key n g) = [case map_of d (band_key n g) of Some v \<Rightarrow> v | None \<Rightarrow> []]"
proof -
  from ffp_lines_Inr_ex [OF assms(1)] obtain ds where len: "length ds = 24"
    and bp': "\<forall>n. 1 \<le> n \<longrightarrow> n \<le> 24 \<longrightarrow> band_params repr p n = Inr (ds ! nat (n - 1))"
    and ls: "ls = header_lines p @ concat (map2 band_block ds [1..24]) @ global_lines repr p
                @ map (tilt_line (length (filters p))) [1..24] @ [[]]"
    by blast
  from bp' have bp: "\<And>n. 1 \<le> n \<Longrightarrow> n \<le> 24 \<Longrightarrow> band_params repr p n = Inr (ds ! nat (n - 1))"
    by blast
  have "filter (\<lambda>l. line_key l = band_key n g) ls = [dict_line (ds ! nat (n - 1)) (band_key n g)]"
    unfolding ls using filter_output [OF len assms(2,3), of g p repr] assms(4) by simp
  then have "values_of ls (band_key n g)
      = [case map_of (ds ! nat (n - 1)) (band_key n g) of Some v \<Rightarrow> v | None \<Rightarrow> []]"
    unfolding values_of_def by (simp only: values_of_dict_line)
  with bp [OF assms(2,3)] show ?thesis by blast
qed

lemma filter_band_values:
  assumes ls: "ffp_lines repr p = Inr ls" and n: "1 \<le> n" "n \<le> 24" "n \<le> int (length (filters p))"
  shows "0 < frequency (filters p ! nat (n - 1))"
    and "\<And>g. g \<in> set sorted_fields \<Longrightarrow> values_of ls (band_key n g) =
      [case map_of (overridden_params repr n (filters p ! nat (n - 1))) (band_key n g) of
         Some v \<Rightarrow> v | None \<Rightarrow> []]"
proof -
  have s: "''Used'' \<in> set sorted_fields" by (simp add: sorted_fields_def)
  from band_values [OF ls n(1,2) s] obtain d where d: "band_params repr p n = Inr d" by blast
  with band_params_filter [OF n(1,3), of repr]
  have pos: "\<not> frequency (filters p ! nat (n - 1)) \<le> 0"
    and dd: "d = overridden_params repr n (filters p ! nat (n - 1))"
    by (auto split: if_splits)
  from pos show "0 < frequency (filters p ! nat (n - 1))" by simp
  fix g assume g: "g \<in> set sorted_fields"
  from band_values [OF ls n(1,2) g] d dd
  show "values_of ls (band_key n g) =
      [case map_of (overridden_params repr n (filters p ! nat (n - 1))) (band_key n g) of
         Some v \<Rightarrow> v | None \<Rightarrow> []]"
    by auto
qed


subsection \<open>Structure of the output\<close>

lemma map_err_cong: "(\<And>x. x \<in> set xs \<Longrightarrow> f x = g x) \<Longrightarrow> map_err f xs = map_err g xs"
proof (induction xs)
  case Nil
  show ?case by simp
next
  case (Cons a xs)
  have "f a = g a" by (rule Cons.prems) simp
  moreover have "map_err f xs = map_err g xs" by (rule Cons.IH, rule Cons.prems) simp
  ultimately show ?case by (simp split: sum.splits)
qed

lemma band_params_take:
  assumes "1 \<le> i" "i \<le> 24"
  shows "band_params repr (p\<lparr>filters := take 24 (filters p)\<rparr>) i = band_params repr p i"
proof (cases "i \<le> int (length (filters p))")
  case True
  with assms have t: "i \<le> int (length (filters (p\<lparr>filters := take 24 (filters p)\<rparr>)))" by simp
  from assms have "nat (i - 1) < 24" by simp
  then have "take 24 (filters p) ! nat (i - 1) = filters p ! nat (i - 1)" by simp
  then show ?thesis
    unfolding band_params_filter [OF assms(1) True] band_params_filter [OF assms(1) t] by simp
next
  case False
  with assms have t: "\<not> i \<le> int (length (filters (p\<lparr>filters := take 24 (filters p)\<rparr>)))" by simp
  show ?thesis
    unfolding band_params_unused [OF False] band_params_unused [OF t] by simp
qed

lemma tilt_line_take: "i \<le> 24 \<Longrightarrow> tilt_line (min (length fs) 24) i = tilt_line (length fs) i"
  by (auto simp: tilt_line_def)

lemma ffp_lines_take: "ffp_lines repr (p\<lparr>filters := take 24 (filters p)\<rparr>) = ffp_lines repr p"
proof -
  let ?p = "p\<lparr>filters := take 24 (filters p)\<rparr>"
  have a: "map_err (band_params repr ?p) [1..24] = map_err (band_params repr p) [1..24]"
    by (rule map_err_cong) (simp add: band_params_take)
  have b: "map (tilt_line (length (filters ?p))) [1..24] = map (tilt_line (length (filters p))) [1..24]"
    by (rule map_cong) (simp_all add: tilt_line_take)
  have c: "header_lines ?p = header_lines p" "global_lines repr ?p = global_lines repr p"
    by (simp_all add: header_lines_def global_lines_def)
  show ?thesis unfolding ffp_lines_closed a b c ..
qed

lemma line_key_band_block:
  "0 \<le> i \<Longrightarrow> map line_key (band_block d i) = map (band_key i) sorted_fields"
  by (simp add: band_block_def line_key_dict_line fields_no_eq)

lemma length_sorted_fields: "length sorted_fields = 23"
  by (simp add: sorted_fields_def)

lemma fixed_lines_no_band:
  "l \<in> set (header_lines p @ global_lines repr p) \<Longrightarrow> \<not> prefix ''Band '' l"
  by (auto simp: header_lines_def global_lines_def)

lemma ffp_lines_structure:
  assumes "ffp_lines repr p = Inr ls"
  shows "\<exists>pre blocks mid.
      ls = pre @ concat blocks @ mid @ map (tilt_line (length (filters p))) [1..24] @ [[]]
    \<and> length blocks = 24
    \<and> (\<forall>j < 24. length (blocks ! j) = 23
          \<and> map line_key (blocks ! j) = map (band_key (int j + 1)) sorted_fields)
    \<and> (\<forall>l \<in> set (pre @ mid). \<not> prefix ''Band '' l)"
proof -
  from ffp_lines_Inr_ex [OF assms] obtain ds where len: "length ds = 24"
    and ls: "ls = header_lines p @ concat (map2 band_block ds [1..24]) @ global_lines repr p
                @ map (tilt_line (length (filters p))) [1..24] @ [[]]"
    by blast
  let ?blocks = "map2 band_block ds [1..24]"
  have l: "length ?blocks = 24" using len by simp
  have b: "?blocks ! j = band_block (ds ! j) (int j + 1)" if "j < 24" for j
    using that len by (simp add: nth_upto add.commute)
  have k: "length (?blocks ! j) = 23
      \<and> map line_key (?blocks ! j) = map (band_key (int j + 1)) sorted_fields" if "j < 24" for j
    unfolding b [OF that]
    using line_key_band_block [of "int j + 1" "ds ! j"] length_sorted_fields
    by (simp add: band_block_def)
  have n: "\<forall>l \<in> set (header_lines p @ global_lines repr p). \<not> prefix ''Band '' l"
    using fixed_lines_no_band by blast
  from ls l k n show ?thesis by blast
qed

subsection \<open>The 24 bands\<close>

lemma eq_preset_to_ffp_Inr:
  "eq_preset_to_ffp repr p = Inr out \<longleftrightarrow> (\<exists>ls. ffp_lines repr p = Inr ls \<and> out = join_nl ls)"
  by (auto simp: eq_preset_to_ffp_def split: sum.splits)

lemma eq_preset_to_ffp_Inl: "eq_preset_to_ffp repr p = Inl e \<longleftrightarrow> ffp_lines repr p = Inl e"
  by (auto simp: eq_preset_to_ffp_def split: sum.splits)

text \<open>
  Claim C1. Whenever the emitter returns an output, its lines are: fixed lines, then exactly
  24 band blocks (block \<open>j\<close> holds the 23 parameter lines of band \<open>j\<close>, for the bands
  \<open>1..24\<close>), then fixed lines, then exactly 24 Spectral Tilt lines, band \<open>N\<close> with value
  \<open>1\<close> if \<open>N\<close> is at most the number of filters and \<open>0\<close> otherwise, then an empty line;
  no other line starts with \<^verbatim>\<open>Band\<close>. This holds for any number of filters; filters
  beyond the 24th are dropped: the output is that of the preset cut to its first 24
  filters. The emitter returns no output only when one of the first 24 filters has a
  non-positive frequency.
\<close>

theorem ffp_band_blocks_and_tilts:
  "(case eq_preset_to_ffp repr p of
      Inl e \<Rightarrow> e = ValueError \<and> (\<exists>f \<in> set (take 24 (filters p)). frequency f \<le> 0)
    | Inr out \<Rightarrow> \<exists>pre blocks mid.
          out = join_nl (pre @ concat blocks @ mid
                  @ map (tilt_line (length (filters p))) [1..24] @ [[]])
        \<and> length blocks = 24
        \<and> (\<forall>j < 24. length (blocks ! j) = 23
              \<and> map line_key (blocks ! j) = map (band_key (int j + 1)) sorted_fields)
        \<and> (\<forall>l \<in> set (pre @ mid). \<not> prefix ''Band '' l))
   \<and> eq_preset_to_ffp repr (p\<lparr>filters := take 24 (filters p)\<rparr>) = eq_preset_to_ffp repr p"
proof
  show "case eq_preset_to_ffp repr p of
      Inl e \<Rightarrow> e = ValueError \<and> (\<exists>f \<in> set (take 24 (filters p)). frequency f \<le> 0)
    | Inr out \<Rightarrow> \<exists>pre blocks mid.
          out = join_nl (pre @ concat blocks @ mid
                  @ map (tilt_line (length (filters p))) [1..24] @ [[]])
        \<and> length blocks = 24
        \<and> (\<forall>j < 24. length (blocks ! j) = 23
              \<and> map line_key (blocks ! j) = map (band_key (int j + 1)) sorted_fields)
        \<and> (\<forall>l \<in> set (pre @ mid). \<not> prefix ''Band '' l)"
  proof (cases "eq_preset_to_ffp repr p")
    case (Inl e)
    then have "ffp_lines repr p = Inl e" by (simp add: eq_preset_to_ffp_Inl)
    with Inl show ?thesis by (simp add: ffp_lines_error_iff)
  next
    case (Inr out)
    then obtain ls where ls: "ffp_lines repr p = Inr ls" and out: "out = join_nl ls"
      by (auto simp: eq_preset_to_ffp_Inr)
    from ffp_lines_structure [OF ls] Inr out show ?thesis by auto
  qed
  show "eq_preset_to_ffp repr (p\<lparr>filters := take 24 (filters p)\<rparr>) = eq_preset_to_ffp repr p"
    by (simp add: eq_preset_to_ffp_def ffp_lines_take)
qed

lemma show_nat_small: "n < 10 \<Longrightarrow> show_nat n = [digit_char n]"
  by (subst show_nat.simps) simp

theorem ffp_band_blocks_and_tilts_witness:
  "\<exists>out pre blocks mid.
      eq_preset_to_ffp any_repr off_filter_preset = Inr out
    \<and> out = join_nl (pre @ concat blocks @ mid @ map (tilt_line 1) [1..24] @ [[]])
    \<and> length blocks = 24
    \<and> length (blocks ! 0) = 23
    \<and> map line_key (blocks ! 0) = map (band_key 1) sorted_fields
    \<and> tilt_line 1 1 = ''Band 1 Spectral Tilt=1''
    \<and> tilt_line 1 2 = ''Band 2 Spectral Tilt=0''"
proof (cases "eq_preset_to_ffp any_repr off_filter_preset")
  case (Inl e)
  with ffp_band_blocks_and_tilts [where repr = any_repr and p = off_filter_preset]
  have "\<exists>f \<in> set (take 24 (filters off_filter_preset)). frequency f \<le> 0" by simp
  then show ?thesis by (simp add: off_filter_preset_def)
next
  case (Inr out)
  with ffp_band_blocks_and_tilts [where repr = any_repr and p = off_filter_preset]
  obtain pre blocks mid where
    a: "out = join_nl (pre @ concat blocks @ mid
          @ map (tilt_line (length (filters off_filter_preset))) [1..24] @ [[]])"
    and b: "length blocks = 24"
    and c: "\<forall>j < 24. length (blocks ! j) = 23
              \<and> map line_key (blocks ! j) = map (band_key (int j + 1)) sorted_fields"
    by auto
  have l: "length (filters off_filter_preset) = 1" by (simp add: off_filter_preset_def)
  from c have d: "length (blocks ! 0) = 23" "map line_key (blocks ! 0) = map (band_key 1) sorted_fields"
    by auto
  have t: "tilt_line 1 1 = ''Band 1 Spectral Tilt=1''" "tilt_line 1 2 = ''Band 2 Spectral Tilt=0''"
    by code_simp+
  from Inr a b d t l show ?thesis by auto
qed

subsection \<open>Defaults, frame and disabled filters\<close>

lemma ffp_lines_ok:
  "(\<forall>f \<in> set (take 24 (filters p)). 0 < frequency f) \<Longrightarrow> \<exists>ls. ffp_lines repr p = Inr ls"
proof (cases "ffp_lines repr p")
  case (Inl e)
  assume "\<forall>f \<in> set (take 24 (filters p)). 0 < frequency f"
  with Inl show ?thesis by (auto simp: ffp_lines_error_iff not_le [symmetric])
next
  case (Inr ls)
  then show ?thesis by blast
qed

lemma off_filter_preset_ok: "\<exists>ls. ffp_lines repr off_filter_preset = Inr ls"
  by (rule ffp_lines_ok) (simp add: off_filter_preset_def)

text \<open>
  Claim C7 as stated fails: the default set does not hold the text \<^verbatim>\<open>9.965784284662087\<close>
  under the Frequency key, but the constant \<^verbatim>\<open>9.96578407287598\<close>, a different decimal.
\<close>

theorem default_frequency_counterexample:
  "\<not> (map_of (generate_default_band_params 1 False) (band_key 1 ''Frequency'')
        = Some ''9.965784284662087'')
   \<and> py_float ''9.96578407287598'' = Inr 9.96578407287598
   \<and> py_float ''9.965784284662087'' = Inr 9.965784284662087
   \<and> (9.96578407287598 :: real) < 9.965784284662087 - 2 / 10 ^ 7"
proof -
  have a: "\<not> (map_of (generate_default_band_params 1 False) (band_key 1 ''Frequency'')
        = Some ''9.965784284662087'')"
    by (simp add: generate_default_band_params_def band_key_def)
  have b: "py_float ''9.96578407287598'' = Inr 9.96578407287598"
    by (simp add: py_float_def py_strip_def is_space_def unsigned_decimal_def is_digit_def
        nat_of_digits_def digit_val_def Let_def)
  have c: "py_float ''9.965784284662087'' = Inr 9.965784284662087"
    by (simp add: py_float_def py_strip_def is_space_def unsigned_decimal_def is_digit_def
        nat_of_digits_def digit_val_def Let_def)
  have d: "(9.96578407287598 :: real) < 9.965784284662087 - 2 / 10 ^ 7" by simp
  from a b c d show ?thesis by blast
qed

text \<open>
  Claim C7, amended. For every band index \<open>N\<close> and both values of the used flag, the
  default parameter set assigns the Frequency field the constant text
  \<^verbatim>\<open>9.96578407287598\<close>, the Gain field \<^verbatim>\<open>0\<close>, the Q field \<^verbatim>\<open>0.5\<close> and the Shape field
  \<^verbatim>\<open>0\<close>.
\<close>

theorem default_band_fields:
  "map_of (generate_default_band_params n used) (band_key n ''Frequency'') = Some ''9.96578407287598''
   \<and> map_of (generate_default_band_params n used) (band_key n ''Gain'') = Some ''0''
   \<and> map_of (generate_default_band_params n used) (band_key n ''Q'') = Some ''0.5''
   \<and> map_of (generate_default_band_params n used) (band_key n ''Shape'') = Some ''0''"
  by (simp add: generate_default_band_params_def band_key_def)

lemma field_names_sorted_fields: "set field_names = set sorted_fields"
  by (simp add: set_sorted_fields)

lemma field_names_have_defaults:
  "g \<in> set field_names \<Longrightarrow> \<exists>v. map_of (generate_default_band_params n u) (band_key n g) = Some v"
proof -
  assume "g \<in> set field_names"
  then have "band_key n g \<in> set (map fst (generate_default_band_params n u))"
    by (simp add: default_keys)
  then show ?thesis
    by (metis (no_types) image_set map_of_eq_None_iff not_Some_eq)
qed

text \<open>
  Claim C8. For a band with a filter, every emitted field other than Used, Enabled,
  Frequency, Gain, Q and Shape has the value of the used default set; the used and the
  unused default sets have the same keys and differ exactly at Used, Threshold, Side Chain
  Low Frequency and Side Chain High Frequency.
\<close>

theorem band_block_frame:
  "(ffp_lines repr p = Inr ls \<and> 1 \<le> n \<and> n \<le> 24 \<and> n \<le> int (length (filters p)) \<longrightarrow>
      (\<forall>g \<in> set field_names.
          g \<notin> {''Used'', ''Enabled'', ''Frequency'', ''Gain'', ''Q'', ''Shape''} \<longrightarrow>
          (\<exists>v. map_of (generate_default_band_params n True) (band_key n g) = Some v
             \<and> values_of ls (band_key n g) = [v])))
   \<and> map fst (generate_default_band_params n True) = map (band_key n) field_names
   \<and> map fst (generate_default_band_params n False) = map (band_key n) field_names
   \<and> (\<forall>f \<in> set field_names.
        (map_of (generate_default_band_params n True) (band_key n f)
           \<noteq> map_of (generate_default_band_params n False) (band_key n f))
        = (f \<in> {''Used'', ''Threshold'', ''Side Chain Low Frequency'', ''Side Chain High Frequency''}))"
proof (intro conjI impI ballI)
  fix g
  assume h: "ffp_lines repr p = Inr ls \<and> 1 \<le> n \<and> n \<le> 24 \<and> n \<le> int (length (filters p))"
    and g: "g \<in> set field_names"
    and ng: "g \<notin> {''Used'', ''Enabled'', ''Frequency'', ''Gain'', ''Q'', ''Shape''}"
  from h have ls: "ffp_lines repr p = Inr ls" and n: "1 \<le> n" "n \<le> 24" "n \<le> int (length (filters p))"
    by simp_all
  from n have n0: "0 \<le> n" by simp
  from g have gs: "g \<in> set sorted_fields" by (simp add: field_names_sorted_fields)
  from ng have "band_key n g \<notin> band_key n ` {''Used'', ''Enabled'', ''Frequency'', ''Gain'', ''Q'', ''Shape''}"
    by (auto simp: band_key_inject [OF n0 n0])
  note fr = overridden_frame [OF this]
  from field_names_have_defaults [OF g, of n True] obtain v
    where v: "map_of (generate_default_band_params n True) (band_key n g) = Some v" by blast
  from filter_band_values(2) [OF ls n gs] fr v
  have "values_of ls (band_key n g) = [v]" by simp
  with v show "\<exists>v. map_of (generate_default_band_params n True) (band_key n g) = Some v
             \<and> values_of ls (band_key n g) = [v]" by blast
next
  fix f assume "f \<in> set field_names"
  with default_sets_differ [of n]
  show "(map_of (generate_default_band_params n True) (band_key n f)
           \<noteq> map_of (generate_default_band_params n False) (band_key n f))
        = (f \<in> {''Used'', ''Threshold'', ''Side Chain Low Frequency'', ''Side Chain High Frequency''})"
    by blast
qed (rule default_keys)+

theorem band_block_frame_witness:
  "\<exists>ls. ffp_lines any_repr off_filter_preset = Inr ls
     \<and> map_of (generate_default_band_params 1 True) (band_key 1 ''Threshold'') = Some ''1''
     \<and> values_of ls (band_key 1 ''Threshold'') = [''1'']
     \<and> map_of (generate_default_band_params 1 True) (band_key 1 ''Threshold'')
          \<noteq> map_of (generate_default_band_params 1 False) (band_key 1 ''Threshold'')
     \<and> map_of (generate_default_band_params 1 True) (band_key 1 ''Slope'')
          = map_of (generate_default_band_params 1 False) (band_key 1 ''Slope'')"
proof -
  from off_filter_preset_ok obtain ls where ls: "ffp_lines any_repr off_filter_preset = Inr ls"
    by blast
  have n: "(1::int) \<le> 1" "(1::int) \<le> 24" "1 \<le> int (length (filters off_filter_preset))"
    by (simp_all add: off_filter_preset_def)
  have t: "''Threshold'' \<in> set field_names" "''Slope'' \<in> set field_names"
    "''Threshold'' \<notin> {''Used'', ''Enabled'', ''Frequency'', ''Gain'', ''Q'', ''Shape''}"
    by (simp_all add: field_names_def)
  have d: "map_of (generate_default_band_params 1 True) (band_key 1 ''Threshold'') = Some ''1''"
    by (simp add: generate_default_band_params_def band_key_def)
  note bf = band_block_frame [where repr = any_repr and p = off_filter_preset and ls = ls and n = 1]
  have h: "ffp_lines any_repr off_filter_preset = Inr ls \<and> (1::int) \<le> 1 \<and> (1::int) \<le> 24
      \<and> 1 \<le> int (length (filters off_filter_preset))"
    using ls n by (intro conjI)
  note a = bf [THEN conjunct1, THEN mp, OF h, THEN bspec, OF t(1), THEN mp, OF t(3)]
  from a obtain v where
    "map_of (generate_default_band_params 1 True) (band_key 1 ''Threshold'') = Some v"
    "values_of ls (band_key 1 ''Threshold'') = [v]"
    by blast
  with d have v: "values_of ls (band_key 1 ''Threshold'') = [''1'']" by simp
  note df = bf [THEN conjunct2, THEN conjunct2, THEN conjunct2]
  from df [THEN bspec, OF t(1)] have d1:
    "map_of (generate_default_band_params 1 True) (band_key 1 ''Threshold'')
          \<noteq> map_of (generate_default_band_params 1 False) (band_key 1 ''Threshold'')"
    by simp
  from df [THEN bspec, OF t(2)] have d2:
    "map_of (generate_default_band_params 1 True) (band_key 1 ''Slope'')
          = map_of (generate_default_band_params 1 False) (band_key 1 ''Slope'')"
    by simp
  from ls d v d1 d2 show ?thesis by blast
qed



subsection \<open>Matches of the patterns\<close>

lemma in_rmatch_Lit: "(g, r) \<in> set (rmatch (Lit l) s) \<longleftrightarrow> g = [] \<and> s = l @ r"
  by (auto simp: prefix_def)

lemma in_rmatch_OptChar:
  "(g, r) \<in> set (rmatch (OptChar c) s) \<longleftrightarrow> g = [] \<and> (s = c # r \<or> s = r)"
  by (auto split: list.splits)

lemma take_takeWhile_all: "n \<le> length (takeWhile P s) \<Longrightarrow> list_all P (take n s)"
  apply (induction s arbitrary: n)
   apply simp
  apply (case_tac n)
   apply (auto split: if_splits)
  done

lemma set_rmatch_OneOrMore:
  "set (rmatch (OneOrMore k) s) = (\<lambda>n. ([], drop n s)) ` {n. 1 \<le> n \<and> n \<le> length (takeWhile (in_cls k) s)}"
  by (auto simp: image_iff)

lemma set_rmatch_ZeroOrMore:
  "set (rmatch (ZeroOrMore k) s) = (\<lambda>n. ([], drop n s)) ` {n. n \<le> length (takeWhile (in_cls k) s)}"
proof -
  have "set (rev [0..<Suc m]) = {n. n \<le> m}" for m :: nat
    by (auto simp del: upt_Suc)
  then show ?thesis by (simp only: rmatch.simps set_map)
qed

lemma in_rmatch_OneOrMore:
  assumes "(g, r) \<in> set (rmatch (OneOrMore k) s)"
  shows "g = [] \<and> (\<exists>w. w \<noteq> [] \<and> list_all (in_cls k) w \<and> s = w @ r)"
proof -
  from assms obtain n where n: "1 \<le> n" "n \<le> length (takeWhile (in_cls k) s)"
    and g: "g = []" and r: "r = drop n s"
    unfolding set_rmatch_OneOrMore by blast
  from n have "n \<le> length s" using length_takeWhile_le [of "in_cls k" s] by linarith
  with n(1) have "take n s \<noteq> []" by auto
  moreover have "list_all (in_cls k) (take n s)" using n(2) by (rule take_takeWhile_all)
  moreover have "s = take n s @ r" by (simp add: r)
  ultimately show ?thesis using g by blast
qed

lemma in_rmatch_ZeroOrMore:
  assumes "(g, r) \<in> set (rmatch (ZeroOrMore k) s)"
  shows "g = [] \<and> (\<exists>w. list_all (in_cls k) w \<and> s = w @ r)"
proof -
  from assms obtain n where n: "n \<le> length (takeWhile (in_cls k) s)"
    and g: "g = []" and r: "r = drop n s"
    unfolding set_rmatch_ZeroOrMore by blast
  have "list_all (in_cls k) (take n s)" using n by (rule take_takeWhile_all)
  moreover have "s = take n s @ r" by (simp add: r)
  ultimately show ?thesis using g by blast
qed

lemma in_rmatch_Then:
  "(g, r) \<in> set (rmatch (Then a b) s) \<longleftrightarrow>
     (\<exists>g1 s1 g2. (g1, s1) \<in> set (rmatch a s) \<and> (g2, r) \<in> set (rmatch b s1) \<and> g = g1 @ g2)"
  by force

lemma in_rmatch_Group:
  "(g, r) \<in> set (rmatch (Group a) s) \<longleftrightarrow>
     (\<exists>g'. (g', r) \<in> set (rmatch a s) \<and> g = take (length s - length r) s # g')"
  by force

declare rmatch.simps [simp del]

lemma rmatch_suffix: "(g, r) \<in> set (rmatch x s) \<Longrightarrow> \<exists>w. s = w @ r"
proof (induction x arbitrary: g r s)
  case (Lit l)
  then show ?case by (auto simp: in_rmatch_Lit)
next
  case (OptChar c)
  then show ?case by (auto simp: in_rmatch_OptChar intro: exI [of _ "[c]"] exI [of _ "[]"])
next
  case (OneOrMore k)
  from in_rmatch_OneOrMore [OF this] show ?case by blast
next
  case (ZeroOrMore k)
  from in_rmatch_ZeroOrMore [OF this] show ?case by blast
next
  case (Either a b)
  then show ?case by (auto simp: rmatch.simps)
next
  case (Then a b)
  from Then.prems obtain g1 s1 g2 where a: "(g1, s1) \<in> set (rmatch a s)"
    and b: "(g2, r) \<in> set (rmatch b s1)"
    unfolding in_rmatch_Then by blast
  from Then.IH(1) [OF a] Then.IH(2) [OF b] show ?case by (metis append.assoc)
next
  case (Group a)
  then show ?case unfolding in_rmatch_Group by blast
qed

lemma groupless_no_groups: "groupless x \<Longrightarrow> (g, r) \<in> set (rmatch x s) \<Longrightarrow> g = []"
proof (induction x arbitrary: g r s)
  case (Then a b)
  from Then.prems(2) obtain g1 s1 g2 where a: "(g1, s1) \<in> set (rmatch a s)"
    and b: "(g2, r) \<in> set (rmatch b s1)" and g: "g = g1 @ g2"
    unfolding in_rmatch_Then by blast
  from Then.IH(1) [OF _ a] Then.IH(2) [OF _ b] Then.prems(1) g show ?case by simp
qed (auto simp: in_rmatch_Lit in_rmatch_OptChar rmatch.simps(5)
      dest: in_rmatch_OneOrMore in_rmatch_ZeroOrMore)

lemma Then_groupless_head:
  assumes "groupless a" "(g, r) \<in> set (rmatch (Then a b) s)"
  shows "\<exists>s1. (g, r) \<in> set (rmatch b s1)"
proof -
  from assms(2) obtain g1 s1 g2 where a: "(g1, s1) \<in> set (rmatch a s)"
    and b: "(g2, r) \<in> set (rmatch b s1)" and g: "g = g1 @ g2"
    unfolding in_rmatch_Then by blast
  from groupless_no_groups [OF assms(1) a] g b show ?thesis by auto
qed

lemma Group_capture:
  assumes "groupless a" "(g, r) \<in> set (rmatch (Group a) s)"
  shows "\<exists>w. g = [w] \<and> s = w @ r \<and> ([], r) \<in> set (rmatch a (w @ r))"
proof -
  from assms(2) obtain g' where a: "(g', r) \<in> set (rmatch a s)"
    and g: "g = take (length s - length r) s # g'"
    unfolding in_rmatch_Group by blast
  from groupless_no_groups [OF assms(1) a] have g': "g' = []" .
  from rmatch_suffix [OF a] obtain w where w: "s = w @ r" by blast
  then have "take (length s - length r) s = w" by simp
  with g g' a w show ?thesis by auto
qed

lemma Then_group_head:
  assumes "groupless a" "(g, r) \<in> set (rmatch (Then (Group a) b) s)"
  shows "\<exists>w s1 g2. g = w # g2 \<and> ([], s1) \<in> set (rmatch a (w @ s1)) \<and> (g2, r) \<in> set (rmatch b s1)"
proof -
  from assms(2) obtain g1 s1 g2 where a: "(g1, s1) \<in> set (rmatch (Group a) s)"
    and b: "(g2, r) \<in> set (rmatch b s1)" and g: "g = g1 @ g2"
    unfolding in_rmatch_Then by blast
  from Group_capture [OF assms(1) a] obtain w where "g1 = [w]" "([], s1) \<in> set (rmatch a (w @ s1))"
    by blast
  with b g show ?thesis by auto
qed

lemma in_cls_Digit: "list_all (in_cls Digit) w = list_all is_digit w"
  by (simp add: list_all_iff)

lemma number_re_shape:
  assumes "([], r) \<in> set (rmatch number_re (w @ r))"
  shows "\<exists>a b. a \<noteq> [] \<and> list_all is_digit a \<and> list_all is_digit b
           \<and> (w = a @ b \<or> w = a @ CHR ''.'' # b)"
proof -
  from assms obtain s1 s2 where
    1: "([], s1) \<in> set (rmatch (OneOrMore Digit) (w @ r))"
    and 2: "([], s2) \<in> set (rmatch (OptChar CHR ''.'') s1)"
    and 3: "([], r) \<in> set (rmatch (ZeroOrMore Digit) s2)"
    unfolding number_re_def cat.simps in_rmatch_Then
    by (auto simp: in_rmatch_OptChar dest: in_rmatch_OneOrMore in_rmatch_ZeroOrMore)
  from in_rmatch_OneOrMore [OF 1] obtain a where a: "a \<noteq> []" "list_all is_digit a" "w @ r = a @ s1"
    by (auto simp: in_cls_Digit)
  from 2 have d: "s1 = CHR ''.'' # s2 \<or> s1 = s2" by (simp add: in_rmatch_OptChar)
  from in_rmatch_ZeroOrMore [OF 3] obtain b where b: "list_all is_digit b" "s2 = b @ r"
    by (auto simp: in_cls_Digit)
  from d a(3) b(2) have "w @ r = (a @ CHR ''.'' # b) @ r \<or> w @ r = (a @ b) @ r" by auto
  then have "w = a @ CHR ''.'' # b \<or> w = a @ b" by (simp only: append_same_eq)
  with a b show ?thesis by blast
qed

lemma signed_number_re_shape:
  assumes "([], r) \<in> set (rmatch signed_number_re (w @ r))"
  shows "\<exists>a b u. a \<noteq> [] \<and> list_all is_digit a \<and> list_all is_digit b
           \<and> (u = a @ b \<or> u = a @ CHR ''.'' # b) \<and> (w = u \<or> w = CHR ''-'' # u)"
proof -
  from assms obtain s1 where
    1: "([], s1) \<in> set (rmatch (OptChar CHR ''-'') (w @ r))"
    and 2: "([], r) \<in> set (rmatch number_re s1)"
    unfolding signed_number_re_def cat.simps in_rmatch_Then
    by (auto simp: in_rmatch_OptChar)
  from rmatch_suffix [OF 2] obtain u where u: "s1 = u @ r" by blast
  from number_re_shape [OF 2 [unfolded u]] obtain a b where
    ab: "a \<noteq> []" "list_all is_digit a" "list_all is_digit b" "u = a @ b \<or> u = a @ CHR ''.'' # b"
    by blast
  from 1 have "w @ r = CHR ''-'' # s1 \<or> w @ r = s1" by (simp add: in_rmatch_OptChar)
  with u have "w @ r = (CHR ''-'' # u) @ r \<or> w @ r = u @ r" by simp
  then have "w = CHR ''-'' # u \<or> w = u" by (simp only: append_same_eq)
  with ab show ?thesis by blast
qed

lemma re_search_in_rmatch:
  "re_search x s = Some g \<Longrightarrow> \<exists>t r. (g, r) \<in> set (rmatch x t)"
proof (induction s)
  case Nil
  show ?case
  proof (cases "rmatch x []")
    case Nil
    with \<open>re_search x [] = Some g\<close> show ?thesis by simp
  next
    case (Cons m ms)
    with \<open>re_search x [] = Some g\<close> have "fst m = g" by (cases m) simp
    then have "(g, snd m) \<in> set (rmatch x [])" using Cons by (cases m) simp
    then show ?thesis by blast
  qed
next
  case (Cons c t)
  show ?case
  proof (cases "rmatch x (c # t)")
    case Nil
    with Cons show ?thesis by simp
  next
    case (Cons m ms)
    with Cons.prems have "fst m = g" by (cases m) simp
    then have "(g, snd m) \<in> set (rmatch x (c # t))" using Cons by (cases m) simp
    then show ?thesis by blast
  qed
qed

lemma groupless_number_re: "groupless number_re"
  by (simp add: number_re_def)

lemma groupless_signed_number_re: "groupless signed_number_re"
  by (simp add: signed_number_re_def number_re_def)

lemma preamp_re_groups:
  assumes "(g, r) \<in> set (rmatch preamp_re s)"
  shows "\<exists>w s1. g = [w] \<and> ([], s1) \<in> set (rmatch signed_number_re (w @ s1))"
proof -
  from assms have "(g, r) \<in> set (rmatch (Then (Lit ''Preamp:'') (Then (ZeroOrMore Space)
      (Then (Group signed_number_re) (Then (ZeroOrMore Space) (Lit ''dB''))))) s)"
    by (simp add: preamp_re_def)
  from Then_groupless_head [OF _ this] obtain t1 where
    "(g, r) \<in> set (rmatch (Then (ZeroOrMore Space)
      (Then (Group signed_number_re) (Then (ZeroOrMore Space) (Lit ''dB'')))) t1)" by auto
  from Then_groupless_head [OF _ this] obtain t2 where
    "(g, r) \<in> set (rmatch (Then (Group signed_number_re) (Then (ZeroOrMore Space) (Lit ''dB''))) t2)"
    by auto
  from Then_group_head [OF groupless_signed_number_re this] obtain w s1 g2 where
    g: "g = w # g2" and w: "([], s1) \<in> set (rmatch signed_number_re (w @ s1))"
    and rest: "(g2, r) \<in> set (rmatch (Then (ZeroOrMore Space) (Lit ''dB'')) s1)" by blast
  from groupless_no_groups [OF _ rest] have "g2 = []" by simp
  with g w show ?thesis by blast
qed

lemma filter_re_groups:
  assumes "(g, r) \<in> set (rmatch filter_re s)"
  shows "\<exists>g1 g2 g3 g4 g5 s3 s4 s5. g = [g1, g2, g3, g4, g5]
           \<and> ([], s3) \<in> set (rmatch number_re (g3 @ s3))
           \<and> ([], s4) \<in> set (rmatch signed_number_re (g4 @ s4))
           \<and> ([], s5) \<in> set (rmatch number_re (g5 @ s5))"
proof -
  have gl: "groupless (Lit l)" "groupless (OneOrMore k)" "groupless (ZeroOrMore k)" for l k
    by simp_all
  note H = Then_groupless_head [OF gl(1)]
  note S = Then_groupless_head [OF gl(2)]
  note Z = Then_groupless_head [OF gl(3)]
  from assms have "(g, r) \<in> set (rmatch (cat [Lit ''Filter'', OneOrMore Space, OneOrMore Digit,
     Lit '':'', OneOrMore Space,
     Group (Either (Lit ''ON'') (Lit ''OFF'')), OneOrMore Space,
     Group (OneOrMore Word), OneOrMore Space,
     Lit ''Fc'', OneOrMore Space, Group number_re, ZeroOrMore Space, Lit ''Hz'', OneOrMore Space,
     Lit ''Gain'', OneOrMore Space, Group signed_number_re, ZeroOrMore Space, Lit ''dB'',
     OneOrMore Space, Lit ''Q'', OneOrMore Space, Group number_re]) s)"
    by (simp only: filter_re_def)
  then have "\<exists>t. (g, r) \<in> set (rmatch (cat [
     Group (Either (Lit ''ON'') (Lit ''OFF'')), OneOrMore Space,
     Group (OneOrMore Word), OneOrMore Space,
     Lit ''Fc'', OneOrMore Space, Group number_re, ZeroOrMore Space, Lit ''Hz'', OneOrMore Space,
     Lit ''Gain'', OneOrMore Space, Group signed_number_re, ZeroOrMore Space, Lit ''dB'',
     OneOrMore Space, Lit ''Q'', OneOrMore Space, Group number_re]) t)"
    unfolding cat.simps by (blast dest: H S)
  then obtain t where "(g, r) \<in> set (rmatch (Then (Group (Either (Lit ''ON'') (Lit ''OFF''))) (cat [
     OneOrMore Space,
     Group (OneOrMore Word), OneOrMore Space,
     Lit ''Fc'', OneOrMore Space, Group number_re, ZeroOrMore Space, Lit ''Hz'', OneOrMore Space,
     Lit ''Gain'', OneOrMore Space, Group signed_number_re, ZeroOrMore Space, Lit ''dB'',
     OneOrMore Space, Lit ''Q'', OneOrMore Space, Group number_re])) t)"
    by (auto simp only: cat.simps)
  from Then_group_head [OF _ this] obtain g1 ga t1 where g1: "g = g1 # ga"
    and "(ga, r) \<in> set (rmatch (cat [
     OneOrMore Space,
     Group (OneOrMore Word), OneOrMore Space,
     Lit ''Fc'', OneOrMore Space, Group number_re, ZeroOrMore Space, Lit ''Hz'', OneOrMore Space,
     Lit ''Gain'', OneOrMore Space, Group signed_number_re, ZeroOrMore Space, Lit ''dB'',
     OneOrMore Space, Lit ''Q'', OneOrMore Space, Group number_re]) t1)"
    by auto
  then have "\<exists>t. (ga, r) \<in> set (rmatch (Then (Group (OneOrMore Word)) (cat [OneOrMore Space,
     Lit ''Fc'', OneOrMore Space, Group number_re, ZeroOrMore Space, Lit ''Hz'', OneOrMore Space,
     Lit ''Gain'', OneOrMore Space, Group signed_number_re, ZeroOrMore Space, Lit ''dB'',
     OneOrMore Space, Lit ''Q'', OneOrMore Space, Group number_re])) t)"
    unfolding cat.simps by (blast dest: S)
  then obtain t2 where "(ga, r) \<in> set (rmatch (Then (Group (OneOrMore Word)) (cat [OneOrMore Space,
     Lit ''Fc'', OneOrMore Space, Group number_re, ZeroOrMore Space, Lit ''Hz'', OneOrMore Space,
     Lit ''Gain'', OneOrMore Space, Group signed_number_re, ZeroOrMore Space, Lit ''dB'',
     OneOrMore Space, Lit ''Q'', OneOrMore Space, Group number_re])) t2)" by blast
  from Then_group_head [OF _ this] obtain g2 gb t3 where g2: "ga = g2 # gb"
    and "(gb, r) \<in> set (rmatch (cat [OneOrMore Space,
     Lit ''Fc'', OneOrMore Space, Group number_re, ZeroOrMore Space, Lit ''Hz'', OneOrMore Space,
     Lit ''Gain'', OneOrMore Space, Group signed_number_re, ZeroOrMore Space, Lit ''dB'',
     OneOrMore Space, Lit ''Q'', OneOrMore Space, Group number_re]) t3)"
    by auto
  then have "\<exists>t. (gb, r) \<in> set (rmatch (Then (Group number_re) (cat [ZeroOrMore Space,
     Lit ''Hz'', OneOrMore Space,
     Lit ''Gain'', OneOrMore Space, Group signed_number_re, ZeroOrMore Space, Lit ''dB'',
     OneOrMore Space, Lit ''Q'', OneOrMore Space, Group number_re])) t)"
    unfolding cat.simps by (blast dest: H S)
  then obtain t4 where "(gb, r) \<in> set (rmatch (Then (Group number_re) (cat [ZeroOrMore Space,
     Lit ''Hz'', OneOrMore Space,
     Lit ''Gain'', OneOrMore Space, Group signed_number_re, ZeroOrMore Space, Lit ''dB'',
     OneOrMore Space, Lit ''Q'', OneOrMore Space, Group number_re])) t4)" by blast
  from Then_group_head [OF groupless_number_re this] obtain g3 gc s3 where g3: "gb = g3 # gc"
    and n3: "([], s3) \<in> set (rmatch number_re (g3 @ s3))"
    and "(gc, r) \<in> set (rmatch (cat [ZeroOrMore Space,
     Lit ''Hz'', OneOrMore Space,
     Lit ''Gain'', OneOrMore Space, Group signed_number_re, ZeroOrMore Space, Lit ''dB'',
     OneOrMore Space, Lit ''Q'', OneOrMore Space, Group number_re]) s3)"
    by blast
  then have "\<exists>t. (gc, r) \<in> set (rmatch (Then (Group signed_number_re) (cat [ZeroOrMore Space,
     Lit ''dB'', OneOrMore Space, Lit ''Q'', OneOrMore Space, Group number_re])) t)"
    unfolding cat.simps by (blast dest: H S Z)
  then obtain t5 where "(gc, r) \<in> set (rmatch (Then (Group signed_number_re) (cat [ZeroOrMore Space,
     Lit ''dB'', OneOrMore Space, Lit ''Q'', OneOrMore Space, Group number_re])) t5)" by blast
  from Then_group_head [OF groupless_signed_number_re this] obtain g4 gd s4 where g4: "gc = g4 # gd"
    and n4: "([], s4) \<in> set (rmatch signed_number_re (g4 @ s4))"
    and "(gd, r) \<in> set (rmatch (cat [ZeroOrMore Space,
     Lit ''dB'', OneOrMore Space, Lit ''Q'', OneOrMore Space, Group number_re]) s4)"
    by blast
  then have "\<exists>t. (gd, r) \<in> set (rmatch (Group number_re) t)"
    unfolding cat.simps by (blast dest: H S Z)
  then obtain t6 where "(gd, r) \<in> set (rmatch (Group number_re) t6)" by blast
  from Group_capture [OF groupless_number_re this] obtain g5 where g5: "gd = [g5]"
    and n5: "([], r) \<in> set (rmatch number_re (g5 @ r))" by blast
  from g1 g2 g3 g4 g5 n3 n4 n5 show ?thesis by blast
qed

subsection \<open>The parser on one line and on a text\<close>

lemma py_strip_no_space: "\<forall>c \<in> set s. \<not> is_space c \<Longrightarrow> py_strip s = s"
proof -
  assume a: "\<forall>c \<in> set s. \<not> is_space c"
  then have "dropWhile is_space s = s" by (cases s) auto
  moreover from a have "dropWhile is_space (rev s) = rev s" by (cases "rev s") (auto simp: in_set_conv_decomp dest!: arg_cong [where f = set])
  ultimately show ?thesis by (simp add: py_strip_def)
qed

lemma digit_not_space: "is_digit c \<Longrightarrow> \<not> is_space c"
  by (simp add: is_digit_def is_space_def Let_def)

lemma digits_no_space: "list_all is_digit a \<Longrightarrow> \<forall>c \<in> set a. \<not> is_space c"
  by (auto simp: list_all_iff digit_not_space)

lemma point_minus_class:
  "\<not> is_space CHR ''.''" "\<not> is_space CHR ''-''" "\<not> is_digit CHR ''.''" "\<not> is_digit CHR ''-''"
  "\<not> is_digit CHR ''+''"
  by (simp_all add: is_digit_def is_space_def)

lemma unsigned_decimal_shape:
  assumes "a \<noteq> []" "list_all is_digit a" "list_all is_digit b"
    and "w = a @ b \<or> w = a @ CHR ''.'' # b"
  shows "\<exists>v. unsigned_decimal w = Inr v \<and> 0 \<le> v"
  using assms(4)
proof
  assume w: "w = a @ b"
  with assms have "list_all is_digit w" by simp
  then have tw: "takeWhile is_digit w = w" "dropWhile is_digit w = []"
    by (simp_all add: list_all_iff)
  from w assms(1) have ne: "w \<noteq> []" by simp
  show ?thesis unfolding unsigned_decimal_def Let_def tw using ne by simp
next
  assume w: "w = a @ CHR ''.'' # b"
  from assms(2) have tw: "takeWhile is_digit w = a" "dropWhile is_digit w = CHR ''.'' # b"
    by (simp_all add: w list_all_iff point_minus_class)
  show ?thesis unfolding unsigned_decimal_def Let_def tw using assms(1,3) by simp
qed

lemma py_float_number:
  assumes "a \<noteq> []" "list_all is_digit a" "list_all is_digit b"
    and "w = a @ b \<or> w = a @ CHR ''.'' # b"
  shows "\<exists>v. py_float w = Inr v \<and> 0 \<le> v"
proof -
  from assms(2,3,4) have "\<forall>c \<in> set w. \<not> is_space c"
    by (auto simp: list_all_iff digit_not_space point_minus_class)
  then have s: "py_strip w = w" by (rule py_strip_no_space)
  from assms(1) obtain c a' where a: "a = c # a'" by (cases a) auto
  with assms(2) have c: "is_digit c" by simp
  then have c': "c \<noteq> CHR ''-''" "c \<noteq> CHR ''+''" using point_minus_class by auto
  from a assms(4) obtain u where u: "w = c # u" by auto
  from unsigned_decimal_shape [OF assms] obtain v where "unsigned_decimal w = Inr v" "0 \<le> v"
    by blast
  with s u c' show ?thesis by (simp add: py_float_def)
qed

lemma py_float_signed_number:
  assumes "a \<noteq> []" "list_all is_digit a" "list_all is_digit b"
    and "u = a @ b \<or> u = a @ CHR ''.'' # b" and "w = u \<or> w = CHR ''-'' # u"
  shows "\<exists>v. py_float w = Inr v"
  using assms(5)
proof
  assume "w = u"
  with py_float_number [OF assms(1-4)] show ?thesis by blast
next
  assume w: "w = CHR ''-'' # u"
  from assms(2,3,4) have "\<forall>c \<in> set w. \<not> is_space c"
    by (auto simp: w list_all_iff digit_not_space point_minus_class)
  then have s: "py_strip w = w" by (rule py_strip_no_space)
  from unsigned_decimal_shape [OF assms(1-4)] obtain v where "unsigned_decimal u = Inr v"
    by blast
  with s w show ?thesis by (simp add: py_float_def)
qed

lemma number_re_float:
  "([], r) \<in> set (rmatch number_re (w @ r)) \<Longrightarrow> \<exists>v. py_float w = Inr v \<and> 0 \<le> v"
  using number_re_shape py_float_number by blast

lemma signed_number_re_float:
  "([], r) \<in> set (rmatch signed_number_re (w @ r)) \<Longrightarrow> \<exists>v. py_float w = Inr v"
  using signed_number_re_shape py_float_signed_number by blast

lemma re_search_preamp:
  assumes "re_search preamp_re s = Some m"
  shows "\<exists>w v. m = [w] \<and> py_float w = Inr v"
proof -
  from re_search_in_rmatch [OF assms] obtain t r where "(m, r) \<in> set (rmatch preamp_re t)"
    by blast
  from preamp_re_groups [OF this] obtain w s1 where "m = [w]"
    "([], s1) \<in> set (rmatch signed_number_re (w @ s1))" by blast
  with signed_number_re_float show ?thesis by blast
qed

lemma re_search_filter:
  assumes "re_search filter_re s = Some m"
  shows "\<exists>g1 g2 g3 g4 g5 fr ga qv. m = [g1, g2, g3, g4, g5]
     \<and> py_float g3 = Inr fr \<and> 0 \<le> fr \<and> py_float g4 = Inr ga \<and> py_float g5 = Inr qv \<and> 0 \<le> qv"
proof -
  from re_search_in_rmatch [OF assms] obtain t r where "(m, r) \<in> set (rmatch filter_re t)"
    by blast
  from filter_re_groups [OF this] obtain g1 g2 g3 g4 g5 s3 s4 s5 where m: "m = [g1, g2, g3, g4, g5]"
    and 3: "([], s3) \<in> set (rmatch number_re (g3 @ s3))"
    and 4: "([], s4) \<in> set (rmatch signed_number_re (g4 @ s4))"
    and 5: "([], s5) \<in> set (rmatch number_re (g5 @ s5))" by blast
  from number_re_float [OF 3] number_re_float [OF 5] signed_number_re_float [OF 4] m
  show ?thesis by blast
qed

lemma parse_line_result:
  "parse_line raw (pa, fs) = Inr (line_preamp raw pa, fs @ line_filters raw)
   \<and> (\<forall>f \<in> set (line_filters raw). 0 \<le> frequency f \<and> 0 \<le> q f)"
proof (cases "prefix ''Preamp:'' (py_strip raw)")
  case True
  note p = this
  show ?thesis
  proof (cases "re_search preamp_re (py_strip raw)")
    case None
    with p show ?thesis by (simp add: parse_line_def line_preamp_def line_filters_def)
  next
    case (Some m)
    from re_search_preamp [OF this] obtain w v where "m = [w]" "py_float w = Inr v" by blast
    with p Some show ?thesis
      by (simp add: parse_line_def line_preamp_def line_filters_def group_def)
  qed
next
  case False
  note p = this
  show ?thesis
  proof (cases "prefix ''Filter'' (py_strip raw)")
    case False
    with p show ?thesis by (simp add: parse_line_def line_preamp_def line_filters_def)
  next
    case True
    note f = this
    show ?thesis
    proof (cases "re_search filter_re (py_strip raw)")
      case None
      with p f show ?thesis by (simp add: parse_line_def line_preamp_def line_filters_def)
    next
      case (Some m)
      from re_search_filter [OF this] obtain g1 g2 g3 g4 g5 fr ga qv where
        "m = [g1, g2, g3, g4, g5]" "py_float g3 = Inr fr" "0 \<le> fr" "py_float g4 = Inr ga"
        "py_float g5 = Inr qv" "0 \<le> qv" by blast
      with p f Some show ?thesis
        by (simp add: parse_line_def line_preamp_def line_filters_def group_def)
    qed
  qed
qed

lemma parse_loop_result:
  "parse_loop ls (pa, fs) = Inr (foldl (\<lambda>a l. line_preamp l a) pa ls, fs @ concat (map line_filters ls))"
proof (induction ls arbitrary: pa fs)
  case Nil
  show ?case by simp
next
  case (Cons l ls)
  from parse_line_result [of l pa fs] have "parse_line l (pa, fs) = Inr (line_preamp l pa, fs @ line_filters l)"
    by blast
  with Cons [of "line_preamp l pa" "fs @ line_filters l"] show ?case by simp
qed

lemma parse_text_preset_result:
  "parse_text_preset text = Inr \<lparr>preamp = foldl (\<lambda>a l. line_preamp l a) 0 (split_nl (py_strip text)),
     filters = concat (map line_filters (split_nl (py_strip text))), name = [], author = [], tags = []\<rparr>"
  by (simp add: parse_text_preset_def parse_loop_result)

subsection \<open>The output level\<close>

lemma block_lines_band:
  assumes "l \<in> set (concat (map2 band_block ds [1..24]))"
  shows "prefix ''Band '' (line_key l)"
proof -
  from assms obtain d j where dj: "(d, j) \<in> set (zip ds [1..24])" and l: "l \<in> set (band_block d j)"
    by auto
  from dj have "j \<in> set [1..24]" by (rule set_zip_rightD)
  then have j: "0 \<le> j" by simp
  from l obtain f where f: "f \<in> set sorted_fields" and "l = dict_line d (band_key j f)"
    by (auto simp: band_block_def)
  with line_key_dict_line [OF j fields_no_eq [OF f]] band_key_prefix show ?thesis by simp
qed

lemma tilt_lines_band:
  assumes "l \<in> set (map (tilt_line k) [1..24])"
  shows "prefix ''Band '' (line_key l)"
proof -
  from assms obtain j where "j \<in> set [1..24]" and l: "l = tilt_line k j" by auto
  then have "0 \<le> j" by simp
  from line_key_tilt_line [OF this] l band_key_prefix show ?thesis by simp
qed

lemma filter_not_band:
  assumes "\<And>l. l \<in> set xs \<Longrightarrow> prefix ''Band '' (line_key l)" and "\<not> prefix ''Band '' k"
  shows "filter (\<lambda>l. line_key l = k) xs = []"
  using assms by (auto simp: filter_empty_conv)

lemma output_level_filter:
  assumes "ffp_lines repr p = Inr ls"
  shows "filter (\<lambda>l. line_key l = ''Output Level'') ls
           = [''Output Level='' @ float_str repr (preamp p / 36)]"
proof -
  from ffp_lines_Inr_ex [OF assms] obtain ds where
    ls: "ls = header_lines p @ concat (map2 band_block ds [1..24]) @ global_lines repr p
                @ map (tilt_line (length (filters p))) [1..24] @ [[]]"
    by blast
  have nb: "\<not> prefix ''Band '' ''Output Level''" by simp
  have h: "filter (\<lambda>l. line_key l = ''Output Level'') (header_lines p) = []"
    by (simp add: header_lines_def line_key_def)
  have g: "filter (\<lambda>l. line_key l = ''Output Level'') (global_lines repr p)
             = [''Output Level='' @ float_str repr (preamp p / 36)]"
    by (simp add: global_lines_def line_key_def)
  have e: "line_key [] \<noteq> ''Output Level''" by (simp add: line_key_def)
  have b: "filter (\<lambda>l. line_key l = ''Output Level'') (concat (map2 band_block ds [1..24])) = []"
    by (rule filter_not_band [OF _ nb]) (rule block_lines_band)
  have t: "filter (\<lambda>l. line_key l = ''Output Level'')
             (map (tilt_line (length (filters p))) [1..24]) = []"
    by (rule filter_not_band [OF _ nb]) (rule tilt_lines_band)
  show ?thesis
    unfolding ls filter_append h g b t using e by simp
qed

lemma output_level_values:
  assumes "ffp_lines repr p = Inr ls"
  shows "values_of ls ''Output Level'' = [float_str repr (preamp p / 36)]"
  unfolding values_of_def output_level_filter [OF assms] by simp

lemma output_level_member:
  assumes "ffp_lines repr p = Inr ls"
  shows "''Output Level='' @ v \<in> set ls \<longleftrightarrow> v = float_str repr (preamp p / 36)"
proof -
  have k: "line_key (''Output Level='' @ v) = ''Output Level''"
    using line_key_append [of "''Output Level''" v] by simp
  have "''Output Level='' @ v \<in> set ls \<longleftrightarrow>
      ''Output Level='' @ v \<in> set (filter (\<lambda>l. line_key l = ''Output Level'') ls)"
    using k by simp
  also have "\<dots> \<longleftrightarrow> v = float_str repr (preamp p / 36)"
    unfolding output_level_filter [OF assms] by simp
  finally show ?thesis .
qed

lemma float_str_0: "float_str repr 0 = ''0.0''"
proof -
  have "str_int 0 = ''0''" by code_simp
  then show ?thesis by (simp add: float_str_def)
qed

lemma line_preamp_other: "\<not> prefix ''Preamp:'' (py_strip raw) \<Longrightarrow> line_preamp raw pa = pa"
  by (simp add: line_preamp_def parse_line_def Let_def split: option.splits sum.splits)

lemma no_preamp_line:
  "\<forall>l \<in> set ls. \<not> prefix ''Preamp:'' (py_strip l) \<Longrightarrow> foldl (\<lambda>a l. line_preamp l a) pa ls = pa"
  by (induction ls arbitrary: pa) (simp_all add: line_preamp_other)

lemma parse_no_preamp:
  assumes "parse_text_preset text = Inr p"
    and "\<forall>l \<in> set (split_nl (py_strip text)). \<not> prefix ''Preamp:'' (py_strip l)"
  shows "preamp p = 0"
  using assms(1) no_preamp_line [OF assms(2), of 0]
  by (auto simp: parse_text_preset_result)

lemma parse_empty: "parse_text_preset [] = Inr empty_preset"
  unfolding empty_preset_def by code_simp

lemma empty_preset_ok: "\<exists>ls. ffp_lines repr (empty_preset\<lparr>author := a, tags := tg\<rparr>) = Inr ls"
  by (rule ffp_lines_ok) (simp add: empty_preset_def)

text \<open>
  Claim C6 as stated fails: for the empty input (no filter, no Preamp line) the lines of
  the output hold \<^verbatim>\<open>Output Level=0.0\<close>, the text of the float \<^verbatim>\<open>0.0\<close>, and no line
  \<^verbatim>\<open>Output Level=0\<close>.
\<close>

theorem output_level_zero_counterexample:
  "parse_text_preset [] = Inr empty_preset
   \<and> filters empty_preset = []
   \<and> \<not> isl (ffp_lines any_repr empty_preset)
   \<and> ''Output Level=0'' \<notin> set (projr (ffp_lines any_repr empty_preset))
   \<and> ''Output Level=0.0'' \<in> set (projr (ffp_lines any_repr empty_preset))"
proof -
  from empty_preset_ok [where repr = any_repr and a = "[]" and tg = "[]"] obtain ls where
    ls: "ffp_lines any_repr empty_preset = Inr ls"
    by (auto simp: empty_preset_def)
  have z: "float_str any_repr (preamp empty_preset / 36) = ''0.0''"
    by (simp add: empty_preset_def float_str_0)
  from output_level_member [OF ls, of "''0''"] output_level_member [OF ls, of "''0.0''"]
  have "''Output Level=0'' \<notin> set ls" "''Output Level=0.0'' \<in> set ls"
    unfolding z by simp_all
  with ls parse_empty show ?thesis by (simp add: empty_preset_def)
qed

text \<open>
  Claim C6, amended. The value written under \<^verbatim>\<open>Output Level\<close> is the text of the float
  \<open>preamp / 36\<close>, whatever the preamp (nothing is clamped), and it is written once. For an
  input without a Preamp line the preamp is \<open>0\<close> and the output holds the line
  \<^verbatim>\<open>Output Level=0.0\<close>, not \<^verbatim>\<open>Output Level=0\<close>.
\<close>

theorem output_level_line:
  "(ffp_lines repr p = Inr ls \<longrightarrow>
      values_of ls ''Output Level'' = [float_str repr (preamp_to_output_level (preamp p))]
      \<and> preamp_to_output_level (preamp p) = preamp p / 36)
   \<and> (parse_text_preset inp = Inr p0
        \<and> (\<forall>l \<in> set (split_nl (py_strip inp)). \<not> prefix ''Preamp:'' (py_strip l))
        \<and> ffp_lines repr (p0\<lparr>author := a, tags := tg\<rparr>) = Inr ls0 \<longrightarrow>
      preamp p0 = 0 \<and> values_of ls0 ''Output Level'' = [''0.0'']
      \<and> ''Output Level=0.0'' \<in> set ls0 \<and> ''Output Level=0'' \<notin> set ls0)"
proof (intro conjI impI)
  assume ls: "ffp_lines repr p = Inr ls"
  from output_level_values [OF ls]
  show "values_of ls ''Output Level'' = [float_str repr (preamp_to_output_level (preamp p))]"
    by (simp add: preamp_to_output_level_def)
  show "preamp_to_output_level (preamp p) = preamp p / 36"
    by (simp add: preamp_to_output_level_def)
next
  assume h: "parse_text_preset inp = Inr p0
        \<and> (\<forall>l \<in> set (split_nl (py_strip inp)). \<not> prefix ''Preamp:'' (py_strip l))
        \<and> ffp_lines repr (p0\<lparr>author := a, tags := tg\<rparr>) = Inr ls0"
  then have p0: "parse_text_preset inp = Inr p0"
    and np: "\<forall>l \<in> set (split_nl (py_strip inp)). \<not> prefix ''Preamp:'' (py_strip l)"
    and ls0: "ffp_lines repr (p0\<lparr>author := a, tags := tg\<rparr>) = Inr ls0"
    by simp_all
  from parse_no_preamp [OF p0 np] show z: "preamp p0 = 0" .
  then have f: "float_str repr (preamp (p0\<lparr>author := a, tags := tg\<rparr>) / 36) = ''0.0''"
    by (simp add: float_str_0)
  from output_level_values [OF ls0] show "values_of ls0 ''Output Level'' = [''0.0'']"
    unfolding f .
  from output_level_member [OF ls0, of "''0.0''"] show "''Output Level=0.0'' \<in> set ls0"
    unfolding f by simp
  from output_level_member [OF ls0, of "''0''"] show "''Output Level=0'' \<notin> set ls0"
    unfolding f by simp
qed

theorem output_level_line_witness:
  "(\<exists>ls. ffp_lines any_repr off_filter_preset = Inr ls
      \<and> values_of ls ''Output Level'' = [float_str any_repr (- 2.5 / 36)])
   \<and> parse_text_preset [] = Inr empty_preset
   \<and> (\<exists>ls0. ffp_lines any_repr (empty_preset\<lparr>author := ''JRoot3D'', tags := ''Calibration''\<rparr>) = Inr ls0
      \<and> preamp empty_preset = 0 \<and> values_of ls0 ''Output Level'' = [''0.0'']
      \<and> ''Output Level=0.0'' \<in> set ls0 \<and> ''Output Level=0'' \<notin> set ls0)"
proof -
  from off_filter_preset_ok [of any_repr] obtain ls where
    ls: "ffp_lines any_repr off_filter_preset = Inr ls" by blast
  from empty_preset_ok [where repr = any_repr and a = "''JRoot3D''" and tg = "''Calibration''"] obtain ls0 where
    ls0: "ffp_lines any_repr (empty_preset\<lparr>author := ''JRoot3D'', tags := ''Calibration''\<rparr>) = Inr ls0"
    by blast
  have np: "\<forall>l \<in> set (split_nl (py_strip [])). \<not> prefix ''Preamp:'' (py_strip l)"
    by (simp add: py_strip_def)
  note t = output_level_line [where repr = any_repr and p = off_filter_preset and ls = ls
      and inp = "[]" and ?p0.0 = empty_preset and a = "''JRoot3D''" and tg = "''Calibration''"
      and ?ls0.0 = ls0]
  from t [THEN conjunct1, THEN mp, OF ls]
  have a: "values_of ls ''Output Level'' = [float_str any_repr (- 2.5 / 36)]"
    by (simp add: preamp_to_output_level_def off_filter_preset_def)
  from t [THEN conjunct2, THEN mp, OF conjI [OF parse_empty conjI [OF np ls0]]]
  have b: "preamp empty_preset = 0 \<and> values_of ls0 ''Output Level'' = [''0.0'']
      \<and> ''Output Level=0.0'' \<in> set ls0 \<and> ''Output Level=0'' \<notin> set ls0" .
  from ls a parse_empty ls0 b show ?thesis by blast
qed

subsection \<open>Frequencies that are not positive, and the parser on every input\<close>

lemma split_nl_ne: "split_nl s \<noteq> []"
  by (induction s) (auto split: list.splits)

lemma split_nl_line: "CHR 0x0A \<notin> set l \<Longrightarrow> split_nl (l @ CHR 0x0A # rest) = l # split_nl rest"
  by (induction l) (auto split: list.splits)

lemma split_nl_single: "CHR 0x0A \<notin> set l \<Longrightarrow> split_nl l = [l]"
  by (induction l) (auto split: list.splits)

lemma split_nl_replicate:
  "CHR 0x0A \<notin> set g \<Longrightarrow> CHR 0x0A \<notin> set z \<Longrightarrow>
   split_nl (concat (replicate n (g @ [CHR 0x0A])) @ z) = replicate n g @ [z]"
  by (induction n) (simp_all add: split_nl_single split_nl_line)

lemma py_strip_id:
  assumes "s \<noteq> []" "\<not> is_space (hd s)" "\<not> is_space (last s)"
  shows "py_strip s = s"
proof -
  from assms(1,2) have a: "dropWhile is_space s = s" by (cases s) auto
  from assms(1) have "rev s \<noteq> []" by simp
  moreover from assms(1,3) have "\<not> is_space (hd (rev s))" by (simp add: hd_rev)
  ultimately have "dropWhile is_space (rev s) = rev s" by (cases "rev s") auto
  with a show ?thesis by (simp add: py_strip_def)
qed

lemma concat_replicate_single: "concat (replicate n [x]) = replicate n x"
  by (induction n) simp_all

lemma line_filters_good: "line_filters good_line = [good_filter]"
  unfolding good_line_def good_filter_def by code_simp

lemma line_filters_zero: "line_filters zero_line = [zero_filter]"
  unfolding zero_line_def zero_filter_def by code_simp

lemma long_text_lines: "split_nl (py_strip long_text) = replicate 24 good_line @ [zero_line]"
proof -
  have g: "good_line \<noteq> []" "hd good_line = CHR ''F''" "CHR 0x0A \<notin> set good_line"
    by (simp_all add: good_line_def)
  have z: "zero_line \<noteq> []" "last zero_line = CHR ''0''" "CHR 0x0A \<notin> set zero_line"
    by (simp_all add: zero_line_def)
  have "replicate 24 (good_line @ [CHR 0x0A])
      = (good_line @ [CHR 0x0A]) # replicate 23 (good_line @ [CHR 0x0A])"
    by (simp add: numeral_eq_Suc)
  then have h: "hd long_text = CHR ''F''" using g(1,2) by (simp add: long_text_def)
  have l: "last long_text = CHR ''0''" using z(1,2) by (simp add: long_text_def)
  have ne: "long_text \<noteq> []" using z(1) by (simp add: long_text_def)
  have "py_strip long_text = long_text"
    by (rule py_strip_id [OF ne]) (simp_all add: h l is_space_def)
  then show ?thesis
    unfolding long_text_def using split_nl_replicate [OF g(3) z(3)] by simp
qed

lemma parse_long: "parse_text_preset long_text = Inr long_preset"
proof -
  have g: "\<not> prefix ''Preamp:'' (py_strip good_line)" unfolding good_line_def by code_simp
  have z: "\<not> prefix ''Preamp:'' (py_strip zero_line)" unfolding zero_line_def by code_simp
  have "\<forall>l \<in> set (replicate 24 good_line @ [zero_line]). \<not> prefix ''Preamp:'' (py_strip l)"
    using g z by auto
  from no_preamp_line [OF this, of 0]
  show ?thesis
    unfolding parse_text_preset_result long_text_lines long_preset_def
    by (simp add: line_filters_good line_filters_zero concat_replicate_single)
qed

lemma parse_zero: "parse_text_preset zero_line = Inr zero_preset"
  unfolding zero_line_def zero_preset_def zero_filter_def by code_simp

lemma eq_preset_to_ffp_error_iff:
  "eq_preset_to_ffp repr p = Inl e \<longleftrightarrow>
     e = ValueError \<and> (\<exists>f \<in> set (take 24 (filters p)). frequency f \<le> 0)"
  using ffp_lines_error_iff [of repr p e]
  by (auto simp: eq_preset_to_ffp_def split: sum.splits)

lemma convert_Inl:
  assumes "parse_text_preset inp = Inr p"
  shows "convert_text_to_ffp repr inp out a tg files = Inl e \<longleftrightarrow>
     e = ValueError \<and> (\<exists>f \<in> set (take 24 (filters p)). frequency f \<le> 0)"
  using eq_preset_to_ffp_error_iff [of repr "p\<lparr>author := a, tags := tg\<rparr>" e] assms
  by (auto simp: convert_text_to_ffp_def Let_def split: sum.splits)

lemma frequency_to_proq4_Inl: "frequency_to_proq4 x = Inl e \<longleftrightarrow> e = ValueError \<and> x \<le> 0"
  by (auto simp: frequency_to_proq4_def math_log2_def)

lemma long_preset_take: "take 24 (filters long_preset) = replicate 24 good_filter"
  by (simp add: long_preset_def)

lemma long_preset_last: "filters long_preset ! 24 = zero_filter"
  by (simp add: long_preset_def nth_append)

text \<open>
  Claim C5 as stated fails: a filter with frequency \<open>0\<close> in the 25th place of a preset is
  dropped before its frequency is transformed, so the conversion of that preset does not
  raise and the output is written.
\<close>

theorem frequency_beyond_24_counterexample:
  "parse_text_preset long_text = Inr long_preset
   \<and> frequency (filters long_preset ! 24) = 0
   \<and> frequency_to_proq4 (frequency (filters long_preset ! 24)) = Inl ValueError
   \<and> \<not> isl (eq_preset_to_ffp any_repr long_preset)
   \<and> \<not> isl (convert_text_to_ffp any_repr long_text ''out.ffp'' ''JRoot3D'' ''Calibration'' Map.empty)"
proof -
  have f: "frequency (filters long_preset ! 24) = 0"
    by (simp add: long_preset_last zero_filter_def)
  have t: "frequency_to_proq4 (frequency (filters long_preset ! 24)) = Inl ValueError"
    unfolding f by (simp add: frequency_to_proq4_Inl)
  have pos: "\<not> (\<exists>f \<in> set (take 24 (filters long_preset)). frequency f \<le> 0)"
    unfolding long_preset_take by (simp add: good_filter_def)
  have e: "\<not> isl (eq_preset_to_ffp any_repr long_preset)"
  proof
    assume "isl (eq_preset_to_ffp any_repr long_preset)"
    then obtain e where "eq_preset_to_ffp any_repr long_preset = Inl e"
      by (cases "eq_preset_to_ffp any_repr long_preset") auto
    with pos show False unfolding eq_preset_to_ffp_error_iff by blast
  qed
  have c: "\<not> isl (convert_text_to_ffp any_repr long_text ''out.ffp'' ''JRoot3D'' ''Calibration'' Map.empty)"
  proof
    assume "isl (convert_text_to_ffp any_repr long_text ''out.ffp'' ''JRoot3D'' ''Calibration'' Map.empty)"
    then obtain e where
      "convert_text_to_ffp any_repr long_text ''out.ffp'' ''JRoot3D'' ''Calibration'' Map.empty = Inl e"
      by (cases "convert_text_to_ffp any_repr long_text ''out.ffp'' ''JRoot3D'' ''Calibration'' Map.empty")
        auto
    with pos show False unfolding convert_Inl [OF parse_long] by blast
  qed
  from parse_long f t e c show ?thesis by blast
qed

text \<open>
  Claim C5, amended. For every \<open>freq_hz \<le> 0\<close>, \<open>frequency_to_proq4\<close> raises
  \<^verbatim>\<open>ValueError\<close>. When a filter with such a frequency is among the first 24 filters of a
  preset, \<open>eq_preset_to_ffp\<close> raises \<^verbatim>\<open>ValueError\<close> and \<open>convert_text_to_ffp\<close> passes it on
  to its caller without writing a file; nothing else makes them raise. A filter beyond the
  24th is dropped, whatever its frequency.
\<close>

theorem non_positive_frequency_aborts:
  "(freq_hz \<le> 0 \<longrightarrow> frequency_to_proq4 freq_hz = Inl ValueError)
   \<and> (eq_preset_to_ffp repr p = Inl e \<longleftrightarrow>
        e = ValueError \<and> (\<exists>f \<in> set (take 24 (filters p)). frequency f \<le> 0))
   \<and> (parse_text_preset inp = Inr p0 \<longrightarrow>
        (convert_text_to_ffp repr inp out a tg files = Inl e \<longleftrightarrow>
           e = ValueError \<and> (\<exists>f \<in> set (take 24 (filters p0)). frequency f \<le> 0)))"
  using eq_preset_to_ffp_error_iff [of repr p e] convert_Inl [of inp p0 repr out a tg files e]
  by (simp add: frequency_to_proq4_Inl)

theorem non_positive_frequency_aborts_witness:
  "frequency_to_proq4 0 = Inl ValueError
   \<and> frequency_to_proq4 (- 20) = Inl ValueError
   \<and> eq_preset_to_ffp any_repr zero_preset = Inl ValueError
   \<and> parse_text_preset zero_line = Inr zero_preset
   \<and> convert_text_to_ffp any_repr zero_line ''out.ffp'' ''JRoot3D'' ''Calibration'' Map.empty
        = Inl ValueError"
proof -
  have z: "\<exists>f \<in> set (take 24 (filters zero_preset)). frequency f \<le> 0"
    by (simp add: zero_preset_def zero_filter_def)
  note t = non_positive_frequency_aborts [where repr = any_repr and p = zero_preset
      and e = ValueError and inp = zero_line and ?p0.0 = zero_preset and out = "''out.ffp''"
      and a = "''JRoot3D''" and tg = "''Calibration''" and files = Map.empty]
  from t [where freq_hz = 0] have a: "frequency_to_proq4 0 = Inl ValueError" by simp
  from t [where freq_hz = "- 20"] have b: "frequency_to_proq4 (- 20) = Inl ValueError" by simp
  from t [where freq_hz = 0] z have c: "eq_preset_to_ffp any_repr zero_preset = Inl ValueError"
    by blast
  from t [where freq_hz = 0, THEN conjunct2, THEN conjunct2, THEN mp, OF parse_zero] z
  have d: "convert_text_to_ffp any_repr zero_line ''out.ffp'' ''JRoot3D'' ''Calibration'' Map.empty
        = Inl ValueError" by blast
  from a b c parse_zero d show ?thesis by blast
qed

text \<open>
  Claim C10. \<open>parse_text_preset\<close> returns a preset on every input; a line on which
  neither pattern matches leaves the preamp and the filters as they were; every filter of
  the result has a frequency and a Q that are not negative, so the frequency transform
  raises on a parsed filter exactly when its frequency is \<open>0\<close>. (A gain can be negative:
  the line of \<open>zero_line\<close> gives \<open>- 3\<close>.)
\<close>

theorem parse_text_preset_total:
  "(\<exists>p. parse_text_preset inp = Inr p
      \<and> (\<forall>f \<in> set (filters p). 0 \<le> frequency f \<and> 0 \<le> q f
            \<and> ((\<exists>e. frequency_to_proq4 (frequency f) = Inl e) \<longleftrightarrow> frequency f = 0)))
   \<and> (re_search preamp_re (py_strip raw) = None \<and> re_search filter_re (py_strip raw) = None
        \<longrightarrow> parse_line raw st = Inr st)"
proof (intro conjI impI)
  let ?p = "\<lparr>preamp = foldl (\<lambda>a l. line_preamp l a) 0 (split_nl (py_strip inp)),
     filters = concat (map line_filters (split_nl (py_strip inp))), name = [], author = [], tags = []\<rparr>"
  have "0 \<le> frequency f \<and> 0 \<le> q f
      \<and> ((\<exists>e. frequency_to_proq4 (frequency f) = Inl e) \<longleftrightarrow> frequency f = 0)"
    if "f \<in> set (filters ?p)" for f
  proof -
    from that obtain l where "f \<in> set (line_filters l)" by auto
    with parse_line_result [of l 0 "[]"] have "0 \<le> frequency f" "0 \<le> q f" by auto
    then show ?thesis by (auto simp: frequency_to_proq4_Inl)
  qed
  with parse_text_preset_result [of inp]
  show "\<exists>p. parse_text_preset inp = Inr p
      \<and> (\<forall>f \<in> set (filters p). 0 \<le> frequency f \<and> 0 \<le> q f
            \<and> ((\<exists>e. frequency_to_proq4 (frequency f) = Inl e) \<longleftrightarrow> frequency f = 0))"
    by blast
next
  assume "re_search preamp_re (py_strip raw) = None \<and> re_search filter_re (py_strip raw) = None"
  then show "parse_line raw st = Inr st"
    by (simp add: parse_line_def Let_def)
qed

theorem parse_text_preset_total_witness:
  "parse_text_preset zero_line = Inr zero_preset
   \<and> filters zero_preset = [zero_filter]
   \<and> 0 \<le> frequency zero_filter \<and> 0 \<le> q zero_filter \<and> gain zero_filter < 0
   \<and> frequency zero_filter = 0
   \<and> frequency_to_proq4 (frequency zero_filter) = Inl ValueError
   \<and> parse_line ''# no filter here'' (0, []) = Inr (0, [])"
proof -
  note t = parse_text_preset_total [where inp = zero_line and raw = "''# no filter here''"
      and st = "(0, [])"]
  from t obtain p where p: "parse_text_preset zero_line = Inr p"
    and all: "\<forall>f \<in> set (filters p). 0 \<le> frequency f \<and> 0 \<le> q f
            \<and> ((\<exists>e. frequency_to_proq4 (frequency f) = Inl e) \<longleftrightarrow> frequency f = 0)"
    by blast
  from p parse_zero have "p = zero_preset" by simp
  with all have z: "0 \<le> frequency zero_filter \<and> 0 \<le> q zero_filter
      \<and> ((\<exists>e. frequency_to_proq4 (frequency zero_filter) = Inl e) \<longleftrightarrow> frequency zero_filter = 0)"
    by (simp add: zero_preset_def)
  have f: "frequency zero_filter = 0" "gain zero_filter < 0" by (simp_all add: zero_filter_def)
  with z obtain e where "frequency_to_proq4 (frequency zero_filter) = Inl e" by blast
  then have v: "frequency_to_proq4 (frequency zero_filter) = Inl ValueError"
    by (simp add: frequency_to_proq4_Inl)
  have n: "re_search preamp_re (py_strip ''# no filter here'') = None
      \<and> re_search filter_re (py_strip ''# no filter here'') = None"
    by code_simp
  from t [THEN conjunct2, THEN mp, OF n]
  have s: "parse_line ''# no filter here'' (0, []) = Inr (0, [])" .
  from parse_zero z f v s show ?thesis by (simp add: zero_preset_def)
qed

end
